theory Spec2Isabelle
  imports Complex_Main "HOL-Library.Word" "HOL-Library.AList"
begin

section \<open>Basic types\<close>

text \<open>
  Python \<open>bytes\<close> are lists of 8-bit words, Python integers are \<open>int\<close> (lengths and
  header fields that cannot be negative are \<open>nat\<close>), and Python floats (the congestion
  window, RTT values and the wall clock) are idealised as \<open>real\<close>: rounding of
  floating-point arithmetic is not modelled. Every call of \<open>time.time()\<close> inside one
  handler invocation reads the same clock value \<open>now\<close>, which the handler takes as a
  parameter. A datagram handed to \<open>sock.sendto\<close> is returned by the function that sends
  it, in a list in sending order. A raised exception is \<open>Inl\<close>; the state and the
  datagrams sent before it are not tracked.
\<close>

type_synonym byte = "8 word"
type_synonym bytes = "byte list"
type_synonym AddressType = "string \<times> int"
type_synonym datagrams = "(bytes \<times> AddressType) list"

datatype error = ValueError | OverflowError | ZeroDivisionError

text \<open>Python's \<open>int(x)\<close> on a float truncates towards zero.\<close>

definition py_int :: "real \<Rightarrow> int" where
  "py_int x = (if 0 \<le> x then \<lfloor>x\<rfloor> else \<lceil>x\<rceil>)"

section \<open>packet.py\<close>

definition BUF_SIZE :: nat where "BUF_SIZE = 1400"

text \<open>\<open>struct.calcsize("BBHII")\<close> with native alignment: 1 + 1 + 2 + 4 + 4 bytes, no padding.\<close>

definition HEADER_LEN :: nat where "HEADER_LEN = 12"

definition MAX_PAYLOAD_SIZE :: nat where "MAX_PAYLOAD_SIZE = BUF_SIZE - HEADER_LEN"

definition CHUNK_SIZE :: nat where "CHUNK_SIZE = 512 * 1024"

text \<open>The constants of class \<open>PktType\<close>.\<close>

definition WHOHAS :: nat where "WHOHAS = 0"
definition IHAVE :: nat where "IHAVE = 1"
definition GET :: nat where "GET = 2"
definition DATA :: nat where "DATA = 3"
definition ACK :: nat where "ACK = 4"
definition DENIED :: nat where "DENIED = 5"

text \<open>
  The class \<open>PacketInfo\<close>; its attributes \<open>seq_num\<close> and \<open>ack_num\<close> are named
  \<open>pkt_seq_num\<close> and \<open>pkt_ack_num\<close> here, apart from those of a connection.
\<close>

record PacketInfo =
  pkt_type :: nat
  header_len :: nat
  pkt_len :: nat
  pkt_seq_num :: int
  pkt_ack_num :: int
  payload :: bytes
  from_addr :: "AddressType option"

text \<open>
  The library functions the codec calls, on a little-endian host: \<open>struct.pack\<close> and
  \<open>struct.unpack\<close> with the native format \<open>"BBHII"\<close> lay the 16-bit and 32-bit fields
  out low byte first (\<open>le_bytes\<close>, \<open>le_value\<close>), and \<open>socket.htons\<close>,
  \<open>socket.htonl\<close>, \<open>socket.ntohs\<close>, \<open>socket.ntohl\<close> reverse the bytes of their
  argument (\<open>byteswap\<close>) and raise \<open>OverflowError\<close> on an argument that is negative
  or does not fit the width. The header constants passed for the two \<open>B\<close> fields are
  below 256, so \<open>struct.pack\<close> itself does not raise.
\<close>

fun le_bytes :: "nat \<Rightarrow> nat \<Rightarrow> bytes" where
  "le_bytes 0 v = []"
| "le_bytes (Suc n) v = of_nat (v mod 256) # le_bytes n (v div 256)"

fun le_value :: "bytes \<Rightarrow> nat" where
  "le_value [] = 0"
| "le_value (b # bs) = unat b + 256 * le_value bs"

definition byteswap :: "nat \<Rightarrow> nat \<Rightarrow> nat" where
  "byteswap n v = le_value (rev (le_bytes n v))"

definition htons :: "int \<Rightarrow> error + nat" where
  "htons x = (if x < 0 \<or> 65535 < x then Inl OverflowError else Inr (byteswap 2 (nat x)))"

definition htonl :: "int \<Rightarrow> error + nat" where
  "htonl x = (if x < 0 \<or> 4294967295 < x then Inl OverflowError else Inr (byteswap 4 (nat x)))"

definition ntohs :: "int \<Rightarrow> error + nat" where
  "ntohs x = htons x"

definition ntohl :: "int \<Rightarrow> error + nat" where
  "ntohl x = htonl x"

definition struct_pack :: "nat \<Rightarrow> nat \<Rightarrow> nat \<Rightarrow> nat \<Rightarrow> nat \<Rightarrow> bytes" where
  "struct_pack t hl len sq ak =
     [of_nat t, of_nat hl] @ le_bytes 2 len @ le_bytes 4 sq @ le_bytes 4 ak"

definition struct_unpack :: "bytes \<Rightarrow> nat \<times> nat \<times> nat \<times> nat \<times> nat" where
  "struct_unpack h =
     (unat (h ! 0), unat (h ! 1), le_value (take 2 (drop 2 h)),
      le_value (take 4 (drop 4 h)), le_value (take 4 (drop 8 h)))"

text \<open>
  The header expression shared by the six builders:
  \<open>struct.pack(HEADER_FMT, t, HEADER_LEN, socket.htons(len), socket.htonl(sq), socket.htonl(ak))\<close>.
\<close>

definition build_header :: "nat \<Rightarrow> nat \<Rightarrow> int \<Rightarrow> int \<Rightarrow> error + bytes" where
  "build_header t len sq ak =
     (case htons (int len) of Inl e \<Rightarrow> Inl e | Inr l \<Rightarrow>
      case htonl sq of Inl e \<Rightarrow> Inl e | Inr s \<Rightarrow>
      case htonl ak of Inl e \<Rightarrow> Inl e | Inr a \<Rightarrow>
        Inr (struct_pack t HEADER_LEN l s a))"

definition build_who_has_packet :: "bytes list \<Rightarrow> error + bytes" where
  "build_who_has_packet chunk_hashes =
     (if chunk_hashes = [] then Inl ValueError
      else let payload = concat chunk_hashes
           in case build_header WHOHAS (HEADER_LEN + length payload) 0 0 of
                Inl e \<Rightarrow> Inl e
              | Inr header \<Rightarrow> Inr (header @ payload))"

definition build_i_have_packet :: "bytes list \<Rightarrow> error + bytes" where
  "build_i_have_packet chunk_hashes =
     (if chunk_hashes = [] then Inl ValueError
      else let payload = concat chunk_hashes
           in case build_header IHAVE (HEADER_LEN + length payload) 0 0 of
                Inl e \<Rightarrow> Inl e
              | Inr header \<Rightarrow> Inr (header @ payload))"

definition build_get_packet :: "bytes \<Rightarrow> error + bytes" where
  "build_get_packet chunk_hash =
     (if length chunk_hash \<noteq> 20 then Inl ValueError
      else case build_header GET (HEADER_LEN + length chunk_hash) 0 0 of
             Inl e \<Rightarrow> Inl e
           | Inr header \<Rightarrow> Inr (header @ chunk_hash))"

definition build_data_packet :: "int \<Rightarrow> bytes \<Rightarrow> error + bytes" where
  "build_data_packet sq data =
     (if length data > MAX_PAYLOAD_SIZE then Inl ValueError
      else case build_header DATA (HEADER_LEN + length data) sq 0 of
             Inl e \<Rightarrow> Inl e
           | Inr header \<Rightarrow> Inr (header @ data))"

definition build_ack_packet :: "int \<Rightarrow> error + bytes" where
  "build_ack_packet ak = build_header ACK HEADER_LEN 0 ak"

definition build_denied_packet :: "error + bytes" where
  "build_denied_packet = build_header DENIED HEADER_LEN 0 0"

definition parse_packet :: "bytes \<Rightarrow> AddressType option \<Rightarrow> error + PacketInfo" where
  "parse_packet packet addr =
     (if length packet < HEADER_LEN then Inl ValueError
      else case struct_unpack (take HEADER_LEN packet) of (t, hl, l, s, a) \<Rightarrow>
        case ntohs (int l) of Inl e \<Rightarrow> Inl e | Inr plen \<Rightarrow>
        case ntohl (int s) of Inl e \<Rightarrow> Inl e | Inr sq \<Rightarrow>
        case ntohl (int a) of Inl e \<Rightarrow> Inl e | Inr ak \<Rightarrow>
          if length packet \<noteq> plen then Inl ValueError
          else Inr \<lparr> pkt_type = t, header_len = hl, pkt_len = plen,
                     pkt_seq_num = int sq, pkt_ack_num = int ak,
                     payload = (if hl < length packet then drop hl packet else []),
                     from_addr = addr \<rparr>)"

text \<open>\<open>range(0, len(payload), 20)\<close> has \<open>(len(payload) + 19) div 20\<close> elements.\<close>

definition extract_chunk_hashes :: "bytes \<Rightarrow> error + bytes list" where
  "extract_chunk_hashes pl =
     (if length pl mod 20 \<noteq> 0 then Inl ValueError
      else Inr (map (\<lambda>k. take 20 (drop (20 * k) pl)) [0 ..< (length pl + 19) div 20]))"

definition validate_chunk_hash :: "bytes \<Rightarrow> bool" where
  "validate_chunk_hash hash_bytes = (length hash_bytes = 20)"

text \<open>
  \<open>bytes.hex()\<close> writes two lowercase hexadecimal digits per byte.
  \<open>bytes.fromhex\<close> skips ASCII whitespace before a byte and raises \<open>ValueError\<close> on
  anything but two hexadecimal digits; \<open>str.strip\<close> and \<open>str.lower\<close> are modelled on
  ASCII strings.
\<close>

definition hex_digit :: "nat \<Rightarrow> char" where
  "hex_digit n = (if n < 10 then char_of (48 + n) else char_of (87 + n))"








definition bytes_to_hex_string :: "bytes \<Rightarrow> string" where
  "bytes_to_hex_string hash_bytes =
     concat (map (\<lambda>b. [hex_digit (unat b div 16), hex_digit (unat b mod 16)]) hash_bytes)"


section \<open>connection.py\<close>

datatype ConnectionState = IDLE | HANDSHAKE | TRANSFER | COMPLETE | ERROR

datatype TransferDirection = UPLOAD | DOWNLOAD

text \<open>
  The class \<open>Connection\<close>. \<open>send_buffer\<close> is a Python list of pairs;
  \<open>recv_buffer\<close> is a Python dict, kept as an association list in insertion order with
  distinct keys. The attributes \<open>first_packet_time\<close> and \<open>packet_times\<close> are
  created dynamically in the source and tested with \<open>hasattr\<close>: \<open>None\<close> stands
  for an absent attribute.
\<close>

record Connection =
  peer_addr :: AddressType
  chunk_hash :: string
  direction :: TransferDirection
  state :: ConnectionState
  created_at :: real
  seq_num :: int
  ack_num :: int
  send_buffer :: "(int \<times> bytes) list"
  recv_buffer :: "(int \<times> bytes) list"
  chunk_data :: bytes
  cwnd :: real
  ssthresh :: int
  estimated_rtt :: real
  dev_rtt :: real
  timeout_interval :: real
  last_send_time :: real
  last_ack_time :: real
  duplicate_ack_count :: int
  retransmission_count :: int
  packets_sent :: int
  packets_acked :: int
  packets_lost :: int
  bytes_transferred :: int
  first_packet_time :: "real option"
  packet_times :: "(int \<times> real) list option"

text \<open>\<open>Connection.__init__\<close>; the first argument is the clock value read for \<open>created_at\<close>.\<close>

definition Connection_init ::
  "real \<Rightarrow> AddressType \<Rightarrow> string \<Rightarrow> TransferDirection \<Rightarrow> Connection" where
  "Connection_init now addr h d =
     \<lparr> peer_addr = addr, chunk_hash = h, direction = d, state = IDLE, created_at = now,
       seq_num = 0, ack_num = 0, send_buffer = [], recv_buffer = [], chunk_data = [],
       cwnd = 1, ssthresh = 64, estimated_rtt = 1, dev_rtt = 1 / 2,
       timeout_interval = 1 + 4 * (1 / 2),
       last_send_time = 0, last_ack_time = 0, duplicate_ack_count = 0,
       retransmission_count = 0, packets_sent = 0, packets_acked = 0, packets_lost = 0,
       bytes_transferred = 0, first_packet_time = None, packet_times = None \<rparr>"

definition update_state :: "ConnectionState \<Rightarrow> Connection \<Rightarrow> Connection" where
  "update_state new_state c = c\<lparr>state := new_state\<rparr>"


definition is_upload :: "Connection \<Rightarrow> bool" where
  "is_upload c = (direction c = UPLOAD)"

definition is_download :: "Connection \<Rightarrow> bool" where
  "is_download c = (direction c = DOWNLOAD)"


definition update_timeout_on_ack :: "real \<Rightarrow> Connection \<Rightarrow> Connection" where
  "update_timeout_on_ack sample_rtt c =
     (let alpha = 15 / 100;
          beta = 3 / 10;
          est = (1 - alpha) * estimated_rtt c + alpha * sample_rtt;
          dev = (1 - beta) * dev_rtt c + beta * \<bar>sample_rtt - est\<bar>
      in c\<lparr>estimated_rtt := est, dev_rtt := dev, timeout_interval := est + 4 * dev\<rparr>)"

text \<open>
  \<open>update_cwnd_on_ack\<close>: the division \<open>1.0 / self.cwnd\<close> raises
  \<open>ZeroDivisionError\<close> when the window is zero.
\<close>

definition update_cwnd_on_ack :: "Connection \<Rightarrow> error + Connection" where
  "update_cwnd_on_ack c =
     (if cwnd c < real_of_int (ssthresh c) then Inr (c\<lparr>cwnd := cwnd c + 1\<rparr>)
      else if cwnd c = 0 then Inl ZeroDivisionError
      else Inr (c\<lparr>cwnd := cwnd c + 1 / cwnd c\<rparr>))"

definition update_cwnd_on_loss :: "Connection \<Rightarrow> Connection" where
  "update_cwnd_on_loss c = c\<lparr>ssthresh := max (py_int (cwnd c / 2)) 2, cwnd := 1\<rparr>"

definition get_send_window :: "Connection \<Rightarrow> int" where
  "get_send_window c = max 1 (py_int (cwnd c))"

definition can_send_more :: "Connection \<Rightarrow> bool" where
  "can_send_more c =
     (if is_upload c then seq_num c - ack_num c < get_send_window c else False)"

definition add_to_send_buffer :: "int \<Rightarrow> bytes \<Rightarrow> Connection \<Rightarrow> Connection" where
  "add_to_send_buffer s d c = c\<lparr>send_buffer := send_buffer c @ [(s, d)]\<rparr>"

text \<open>
  \<open>handle_ack\<close> returns whether the ACK is new, together with the updated connection.
  The assignments before \<open>update_cwnd_on_ack\<close> are lost with the state when it raises.
\<close>

definition handle_ack :: "real \<Rightarrow> int \<Rightarrow> Connection \<Rightarrow> error + (bool \<times> Connection)" where
  "handle_ack now a c =
     (if a > ack_num c then
        (case update_cwnd_on_ack
                (c\<lparr>ack_num := a, duplicate_ack_count := 0, last_ack_time := now,
                   send_buffer := filter (\<lambda>(s, d). s > a) (send_buffer c)\<rparr>) of
           Inl e \<Rightarrow> Inl e
         | Inr c' \<Rightarrow> Inr (True, c'\<lparr>packets_acked := packets_acked c' + 1\<rparr>))
      else Inr (False, c\<lparr>duplicate_ack_count := duplicate_ack_count c + 1\<rparr>))"

definition should_fast_retransmit :: "Connection \<Rightarrow> bool" where
  "should_fast_retransmit c = (duplicate_ack_count c \<ge> 3)"

definition get_next_unacked_seq :: "Connection \<Rightarrow> int option" where
  "get_next_unacked_seq c =
     (if send_buffer c = [] then None
      else map_option fst (find (\<lambda>(s, d). s > ack_num c) (send_buffer c)))"

definition get_packets_to_retransmit :: "Connection \<Rightarrow> int list" where
  "get_packets_to_retransmit c = (if ack_num c < seq_num c then [ack_num c + 1] else [])"

text \<open>
  The loop \<open>while self.ack_num + 1 in self.recv_buffer\<close> of \<open>add_received_data\<close>.
  Each round moves \<open>ack_num\<close> past one more key of the finite buffer.
\<close>

function drain :: "Connection \<Rightarrow> Connection" where
  "drain c =
     (case map_of (recv_buffer c) (ack_num c + 1) of
        None \<Rightarrow> c
      | Some d \<Rightarrow> drain (c\<lparr>chunk_data := chunk_data c @ d, ack_num := ack_num c + 1\<rparr>))"
  by pat_completeness auto
termination
proof (relation "measure (\<lambda>c. length (filter (\<lambda>p. fst p > ack_num c) (recv_buffer c)))")
  show "wf (measure (\<lambda>c. length (filter (\<lambda>p. fst p > ack_num c) (recv_buffer c))))"
    by simp
next
  fix c :: Connection and d
  assume "map_of (recv_buffer c) (ack_num c + 1) = Some d"
  then have m: "(ack_num c + 1, d) \<in> set (filter (\<lambda>p. fst p > ack_num c) (recv_buffer c))"
    by (auto dest: map_of_SomeD)
  have "filter (\<lambda>p. fst p > ack_num c + 1) (recv_buffer c)
      = filter (\<lambda>p. fst p > ack_num c + 1) (filter (\<lambda>p. fst p > ack_num c) (recv_buffer c))"
    by (auto intro: filter_cong)
  moreover have "length (filter (\<lambda>p. fst p > ack_num c + 1)
                    (filter (\<lambda>p. fst p > ack_num c) (recv_buffer c)))
               < length (filter (\<lambda>p. fst p > ack_num c) (recv_buffer c))"
    by (rule length_filter_less [OF m]) simp
  ultimately show "(c\<lparr>chunk_data := chunk_data c @ d, ack_num := ack_num c + 1\<rparr>, c)
        \<in> measure (\<lambda>c. length (filter (\<lambda>p. fst p > ack_num c) (recv_buffer c)))"
    by simp
qed

declare drain.simps [simp del]

definition add_received_data :: "int \<Rightarrow> bytes \<Rightarrow> Connection \<Rightarrow> bool \<times> Connection" where
  "add_received_data s data c =
     (if direction c \<noteq> DOWNLOAD then (False, c)
      else if map_of (recv_buffer c) s = None then
        (True, drain (c\<lparr>recv_buffer := recv_buffer c @ [(s, data)],
                         bytes_transferred := bytes_transferred c + int (length data)\<rparr>))
      else (False, c))"

definition is_chunk_complete :: "nat \<Rightarrow> Connection \<Rightarrow> bool" where
  "is_chunk_complete expected_size c =
     (if direction c \<noteq> DOWNLOAD then False else length (chunk_data c) \<ge> expected_size)"

definition get_chunk_data :: "Connection \<Rightarrow> bytes" where
  "get_chunk_data c = chunk_data c"

text \<open>
  A sequence of congestion events on one connection: a new ACK runs
  \<open>update_cwnd_on_ack\<close>, a loss (timeout or fast retransmit) runs \<open>update_cwnd_on_loss\<close>.
\<close>

datatype cc_event = NewAck | Loss

fun cc_run :: "Connection \<Rightarrow> cc_event list \<Rightarrow> error + Connection" where
  "cc_run c [] = Inr c"
| "cc_run c (NewAck # es) =
     (case update_cwnd_on_ack c of Inl e \<Rightarrow> Inl e | Inr c' \<Rightarrow> cc_run c' es)"
| "cc_run c (Loss # es) = cc_run (update_cwnd_on_loss c) es"

text \<open>A sequence of \<open>add_received_data\<close> calls on one connection.\<close>

fun add_all :: "(int \<times> bytes) list \<Rightarrow> Connection \<Rightarrow> Connection" where
  "add_all [] c = c"
| "add_all ((s, d) # xs) c = add_all xs (snd (add_received_data s d c))"

text \<open>
  The packets acknowledged so far are still in \<open>recv_buffer\<close>, and \<open>chunk_data\<close> is
  their concatenation in sequence order.
\<close>

definition delivered :: "Connection \<Rightarrow> bool" where
  "delivered c \<longleftrightarrow>
     0 \<le> ack_num c
     \<and> (\<forall>k. 1 \<le> k \<and> k \<le> ack_num c \<longrightarrow> map_of (recv_buffer c) k \<noteq> None)
     \<and> chunk_data c = concat (map (\<lambda>k. the (map_of (recv_buffer c) k)) [1..ack_num c])"

section \<open>reliable_transfer.py\<close>

text \<open>
  Modelled from the spec: \<open>PeerContext\<close> (\<open>utils/peer_context.py\<close>) is not among the
  sources; the record holds the attributes the modelled functions read: the local chunk
  store \<open>has_chunks\<close> (hex digest to chunk bytes), \<open>max_conn\<close> and the configured
  \<open>timeout\<close> (0 when the RTT estimator is used).
\<close>

record PeerContext =
  has_chunks :: "string \<rightharpoonup> bytes"
  max_conn :: int
  timeout :: int

text \<open>
  The class \<open>ReliableTransfer\<close>. Its two dicts are association lists in insertion
  order; writing a connection back under its key stands for the in-place mutation of the
  object the dict refers to.
\<close>

record ReliableTransfer =
  rt_context :: PeerContext
  download_connections :: "(string \<times> Connection) list"
  upload_connections :: "((AddressType \<times> string) \<times> Connection) list"
  custom_timeout :: "int option"

definition ReliableTransfer_init :: "PeerContext \<Rightarrow> ReliableTransfer" where
  "ReliableTransfer_init ctx =
     \<lparr> rt_context = ctx, download_connections = [], upload_connections = [],
       custom_timeout = (if timeout ctx > 0 then Some (timeout ctx) else None) \<rparr>"

text \<open>\<open>if self.custom_timeout: connection.timeout_interval = self.custom_timeout\<close>\<close>

definition set_custom_timeout :: "ReliableTransfer \<Rightarrow> Connection \<Rightarrow> Connection" where
  "set_custom_timeout rt c =
     (case custom_timeout rt of
        None \<Rightarrow> c
      | Some t \<Rightarrow> if t \<noteq> 0 then c\<lparr>timeout_interval := real_of_int t\<rparr> else c)"

definition create_download_connection ::
  "real \<Rightarrow> string \<Rightarrow> AddressType \<Rightarrow> ReliableTransfer \<Rightarrow> Connection \<times> ReliableTransfer" where
  "create_download_connection now h addr rt =
     (let connection = update_state TRANSFER
                         (set_custom_timeout rt (Connection_init now addr h DOWNLOAD))
      in (connection,
          rt\<lparr>download_connections := AList.update h connection (download_connections rt)\<rparr>))"

text \<open>
  The packets of a chunk: \<open>math.ceil(len(chunk_data) / MAX_PAYLOAD_SIZE)\<close> slices
  \<open>chunk_data[start:end]\<close>, numbered from 1.
\<close>

definition split_chunk :: "bytes \<Rightarrow> (int \<times> bytes) list" where
  "split_chunk data =
     map (\<lambda>s. let start = s * MAX_PAYLOAD_SIZE;
                  end = min (start + MAX_PAYLOAD_SIZE) (length data)
              in (int s + 1, take (end - start) (drop start data)))
         [0 ..< (length data + MAX_PAYLOAD_SIZE - 1) div MAX_PAYLOAD_SIZE]"

definition create_upload_connection ::
  "real \<Rightarrow> AddressType \<Rightarrow> string \<Rightarrow> ReliableTransfer \<Rightarrow> Connection \<times> ReliableTransfer" where
  "create_upload_connection now addr h rt =
     (let connection = set_custom_timeout rt (Connection_init now addr h UPLOAD)
      in case has_chunks (rt_context rt) h of
           None \<Rightarrow> (update_state ERROR connection, rt)
         | Some data \<Rightarrow>
             if data = [] then (update_state ERROR connection, rt)
             else
               let connection =
                     update_state TRANSFER
                       (fold (\<lambda>(s, d). add_to_send_buffer s d) (split_chunk data) connection)
               in (connection,
                   rt\<lparr>upload_connections :=
                        AList.update (addr, h) connection (upload_connections rt)\<rparr>))"

text \<open>The \<open>while\<close> loop of \<open>send_data_packets\<close>, from \<open>next_seq\<close> on.\<close>

function send_loop :: "real \<Rightarrow> int \<Rightarrow> int \<Rightarrow> Connection \<Rightarrow> error + (Connection \<times> datagrams)" where
  "send_loop now max_seq next_seq c =
     (if next_seq \<le> max_seq \<and> next_seq \<le> ack_num c + get_send_window c then
        (case map_of (send_buffer c) next_seq of
           None \<Rightarrow> Inr (c, [])
         | Some data \<Rightarrow>
             (case build_data_packet next_seq data of
                Inl e \<Rightarrow> Inl e
              | Inr data_pkt \<Rightarrow>
                  (case send_loop now max_seq (next_seq + 1)
                          (c\<lparr>last_send_time := now, packets_sent := packets_sent c + 1,
                             seq_num := next_seq\<rparr>) of
                     Inl e \<Rightarrow> Inl e
                   | Inr (c', out) \<Rightarrow> Inr (c', (data_pkt, peer_addr c) # out))))
      else Inr (c, []))"
  by pat_completeness auto
termination
  by (relation "measure (\<lambda>(now, max_seq, next_seq, c). nat (max_seq + 1 - next_seq))") auto

definition send_data_packets :: "real \<Rightarrow> Connection \<Rightarrow> error + (Connection \<times> datagrams)" where
  "send_data_packets now c =
     (if \<not> can_send_more c then Inr (c, [])
      else send_loop now (int (length (send_buffer c))) (max (seq_num c) (ack_num c + 1)) c)"

definition start_data_upload ::
  "real \<Rightarrow> AddressType \<Rightarrow> string \<Rightarrow> ReliableTransfer
     \<Rightarrow> error + (bool \<times> datagrams \<times> ReliableTransfer)" where
  "start_data_upload now addr h rt =
     (case map_of (upload_connections rt) (addr, h) of
        None \<Rightarrow> Inr (False, [], rt)
      | Some connection \<Rightarrow>
          if state connection \<noteq> TRANSFER then Inr (False, [], rt)
          else case send_data_packets now connection of
                 Inl e \<Rightarrow> Inl e
               | Inr (c', out) \<Rightarrow>
                   Inr (True, out,
                        rt\<lparr>upload_connections :=
                             AList.update (addr, h) c' (upload_connections rt)\<rparr>))"

text \<open>
  The part of \<open>handle_data_packet\<close> that runs on the connection found: it returns the
  connection, the ACK sent and the chunk hash when the chunk is complete.
\<close>

definition receive_data ::
  "real \<Rightarrow> int \<Rightarrow> bytes \<Rightarrow> Connection \<Rightarrow> error + (string option \<times> datagrams \<times> Connection)" where
  "receive_data now s data connection =
     (case add_received_data s data connection of
        (True, c1) \<Rightarrow>
          let c2 = (case first_packet_time c1 of
                      Some t \<Rightarrow> update_timeout_on_ack (now - t) c1
                    | None \<Rightarrow> c1\<lparr>first_packet_time := Some now\<rparr>)
          in (case build_ack_packet (ack_num c2) of
                Inl e \<Rightarrow> Inl e
              | Inr ack_pkt \<Rightarrow>
                  if is_chunk_complete CHUNK_SIZE c2
                  then Inr (Some (chunk_hash c2), [(ack_pkt, peer_addr c2)],
                            update_state COMPLETE c2)
                  else Inr (None, [(ack_pkt, peer_addr c2)], c2))
      | (False, c1) \<Rightarrow>
          (case build_ack_packet (ack_num c1) of
             Inl e \<Rightarrow> Inl e
           | Inr ack_pkt \<Rightarrow> Inr (None, [(ack_pkt, peer_addr c1)], c1)))"

definition handle_data_packet ::
  "real \<Rightarrow> PacketInfo \<Rightarrow> AddressType \<Rightarrow> ReliableTransfer
     \<Rightarrow> error + (string option \<times> datagrams \<times> ReliableTransfer)" where
  "handle_data_packet now pkt_info addr rt =
     (case find (\<lambda>(h, conn). peer_addr conn = addr \<and> state conn = TRANSFER)
             (download_connections rt) of
        None \<Rightarrow> Inr (None, [], rt)
      | Some (h, connection) \<Rightarrow>
          (case receive_data now (pkt_seq_num pkt_info) (payload pkt_info) connection of
             Inl e \<Rightarrow> Inl e
           | Inr (r, out, c') \<Rightarrow>
               Inr (r, out,
                    rt\<lparr>download_connections :=
                         AList.update h c' (download_connections rt)\<rparr>)))"

definition trigger_fast_retransmit ::
  "real \<Rightarrow> Connection \<Rightarrow> error + (Connection \<times> datagrams)" where
  "trigger_fast_retransmit now connection =
     (let c1 = update_cwnd_on_loss connection;
          c2 = c1\<lparr>retransmission_count := retransmission_count c1 + 1\<rparr>;
          lost_seq = ack_num c2 + 1
      in case find (\<lambda>(s, d). s = lost_seq) (send_buffer c2) of
           None \<Rightarrow> Inr (c2\<lparr>duplicate_ack_count := 0\<rparr>, [])
         | Some (s, d) \<Rightarrow>
             (case build_data_packet s d of
                Inl e \<Rightarrow> Inl e
              | Inr data_pkt \<Rightarrow>
                  Inr (c2\<lparr>last_send_time := now, duplicate_ack_count := 0\<rparr>,
                       [(data_pkt, peer_addr c2)])))"

text \<open>
  The part of \<open>handle_ack_packet\<close> that runs on the connection found. \<open>packet_times\<close>
  is never created by the source, so the RTT sample is taken only if it is present.
\<close>

definition receive_ack ::
  "real \<Rightarrow> int \<Rightarrow> Connection \<Rightarrow> error + (string option \<times> datagrams \<times> Connection)" where
  "receive_ack now a connection =
     (case handle_ack now a connection of
        Inl e \<Rightarrow> Inl e
      | Inr (True, c1) \<Rightarrow>
          let c2 = (case packet_times c1 of
                      None \<Rightarrow> c1
                    | Some pt \<Rightarrow>
                        (case map_of pt a of
                           None \<Rightarrow> c1
                         | Some t \<Rightarrow> (update_timeout_on_ack (now - t) c1)
                                        \<lparr>packet_times := Some (AList.delete a pt)\<rparr>))
          in (case send_data_packets now c2 of
                Inl e \<Rightarrow> Inl e
              | Inr (c3, out) \<Rightarrow>
                  if ack_num c3 \<ge> int (length (send_buffer c3))
                  then Inr (Some (chunk_hash c3), out, update_state COMPLETE c3)
                  else Inr (None, out, c3))
      | Inr (False, c1) \<Rightarrow>
          let c2 = c1\<lparr>duplicate_ack_count := duplicate_ack_count c1 + 1\<rparr>
          in if should_fast_retransmit c2
             then (case trigger_fast_retransmit now c2 of
                     Inl e \<Rightarrow> Inl e
                   | Inr (c3, out) \<Rightarrow> Inr (None, out, c3))
             else Inr (None, [], c2))"

definition handle_ack_packet ::
  "real \<Rightarrow> PacketInfo \<Rightarrow> AddressType \<Rightarrow> ReliableTransfer
     \<Rightarrow> error + (string option \<times> datagrams \<times> ReliableTransfer)" where
  "handle_ack_packet now pkt_info addr rt =
     (case find (\<lambda>(key, conn). fst key = addr \<and> state conn = TRANSFER)
             (upload_connections rt) of
        None \<Rightarrow> Inr (None, [], rt)
      | Some (key, connection) \<Rightarrow>
          (case receive_ack now (pkt_ack_num pkt_info) connection of
             Inl e \<Rightarrow> Inl e
           | Inr (r, out, c') \<Rightarrow>
               Inr (r, out,
                    rt\<lparr>upload_connections :=
                         AList.update key c' (upload_connections rt)\<rparr>)))"






text \<open>
  Feeding a sequence of parsed DATA packets, each with its arrival time, from one sender
  to \<open>handle_data_packet\<close>; the datagrams sent are collected in order.
\<close>

fun receive_all ::
  "(real \<times> PacketInfo) list \<Rightarrow> AddressType \<Rightarrow> ReliableTransfer
     \<Rightarrow> error + (datagrams \<times> ReliableTransfer)" where
  "receive_all [] addr rt = Inr ([], rt)"
| "receive_all ((now, pkt) # rest) addr rt =
     (case handle_data_packet now pkt addr rt of
        Inl e \<Rightarrow> Inl e
      | Inr (r, out, rt') \<Rightarrow>
          (case receive_all rest addr rt' of
             Inl e \<Rightarrow> Inl e
           | Inr (out', rt'') \<Rightarrow> Inr (out @ out', rt'')))"

text \<open>
  The uploader's side of \<open>DownloadManager.handle_incoming_packet\<close>, as a run over
  timed events: for a GET that the handshake accepted it calls
  \<open>create_upload_connection\<close> and \<open>start_data_upload\<close>, for an ACK it calls
  \<open>handle_ack_packet\<close>. The datagrams sent are collected in order.
\<close>

datatype upload_event = StartUpload AddressType string | AckFrom AddressType int

fun upload_run ::
  "(real \<times> upload_event) list \<Rightarrow> ReliableTransfer \<Rightarrow> error + (datagrams \<times> ReliableTransfer)" where
  "upload_run [] rt = Inr ([], rt)"
| "upload_run ((now, StartUpload addr h) # rest) rt =
     (case start_data_upload now addr h (snd (create_upload_connection now addr h rt)) of
        Inl e \<Rightarrow> Inl e
      | Inr (r, out, rt') \<Rightarrow>
          (case upload_run rest rt' of
             Inl e \<Rightarrow> Inl e
           | Inr (out', rt'') \<Rightarrow> Inr (out @ out', rt'')))"
| "upload_run ((now, AckFrom addr a) # rest) rt =
     (case handle_ack_packet now
             \<lparr> pkt_type = ACK, header_len = HEADER_LEN, pkt_len = HEADER_LEN,
               pkt_seq_num = 0, pkt_ack_num = a, payload = [], from_addr = Some addr \<rparr>
             addr rt of
        Inl e \<Rightarrow> Inl e
      | Inr (r, out, rt') \<Rightarrow>
          (case upload_run rest rt' of
             Inl e \<Rightarrow> Inl e
           | Inr (out', rt'') \<Rightarrow> Inr (out @ out', rt'')))"

text \<open>
  The parsed DATA packet number \<open>k\<close> of a chunk whose packets carry the payloads
  \<open>ps\<close> (packet \<open>k\<close> carries \<open>ps ! (k - 1)\<close>), and a sequence of such packets
  given by their arrival times and sequence numbers.
\<close>

definition data_packet :: "AddressType \<Rightarrow> bytes list \<Rightarrow> int \<Rightarrow> PacketInfo" where
  "data_packet addr ps k =
     \<lparr> pkt_type = DATA, header_len = HEADER_LEN,
       pkt_len = HEADER_LEN + length (ps ! nat (k - 1)),
       pkt_seq_num = k, pkt_ack_num = 0, payload = ps ! nat (k - 1),
       from_addr = Some addr \<rparr>"

definition data_arrivals ::
  "AddressType \<Rightarrow> bytes list \<Rightarrow> (real \<times> int) list \<Rightarrow> (real \<times> PacketInfo) list" where
  "data_arrivals addr ps arr = map (\<lambda>(t, k). (t, data_packet addr ps k)) arr"

text \<open>
  What a download connection for the payloads \<open>ps\<close> keeps true while their packets
  arrive: the delivered prefix is in place, the next expected packet is not buffered,
  and every buffered entry is a packet of the chunk.
\<close>

definition download_inv :: "bytes list \<Rightarrow> Connection \<Rightarrow> bool" where
  "download_inv ps c \<longleftrightarrow>
     direction c = DOWNLOAD \<and> delivered c
     \<and> map_of (recv_buffer c) (ack_num c + 1) = None
     \<and> (\<forall>k d. map_of (recv_buffer c) k = Some d \<longrightarrow>
           1 \<le> k \<and> k \<le> int (length ps) \<and> d = ps ! nat (k - 1))"

text \<open>An ACK datagram sent to \<open>addr\<close>.\<close>

definition is_ack_to :: "AddressType \<Rightarrow> bytes \<times> AddressType \<Rightarrow> bool" where
  "is_ack_to addr e \<longleftrightarrow> snd e = addr \<and> (\<exists>n. build_ack_packet n = Inr (fst e))"

section \<open>handshake.py\<close>

text \<open>
  The class \<open>HandshakeManager\<close>. \<open>active_requests\<close> maps a chunk hash to the request
  time and the responses per peer.
\<close>

record HandshakeManager =
  hm_context :: PeerContext
  active_requests :: "(string \<times> real \<times> (AddressType \<times> string list) list) list"
  hm_upload_connections :: "((AddressType \<times> string) \<times> Connection) list"
  connection_limit :: int

definition HandshakeManager_init :: "PeerContext \<Rightarrow> HandshakeManager" where
  "HandshakeManager_init ctx =
     \<lparr> hm_context = ctx, active_requests = [], hm_upload_connections = [],
       connection_limit = max_conn ctx \<rparr>"



definition handle_get_request ::
  "real \<Rightarrow> PacketInfo \<Rightarrow> AddressType \<Rightarrow> HandshakeManager \<Rightarrow> string option \<times> HandshakeManager" where
  "handle_get_request now pkt_info addr hm =
     (if length (payload pkt_info) \<noteq> 20 then (None, hm)
      else
        let requested_hash = bytes_to_hex_string (payload pkt_info)
        in if has_chunks (hm_context hm) requested_hash = None then (None, hm)
           else if int (length (hm_upload_connections hm)) \<ge> connection_limit hm then (None, hm)
           else if map_of (hm_upload_connections hm) (addr, requested_hash) \<noteq> None
             then (None, hm)
           else
             let upload_conn = update_state TRANSFER
                                 (Connection_init now addr requested_hash UPLOAD)
             in (Some requested_hash,
                 hm\<lparr>hm_upload_connections :=
                      AList.update (addr, requested_hash) upload_conn
                        (hm_upload_connections hm)\<rparr>))"


lemma length_le_bytes [simp]: "length (le_bytes n v) = n"
  by (induction n arbitrary: v) auto

lemma le_value_le_bytes: "v < 256 ^ n \<Longrightarrow> le_value (le_bytes n v) = v"
proof (induction n arbitrary: v)
  case 0
  then show ?case by simp
next
  case (Suc n)
  then have "v div 256 < 256 ^ n"
    by (simp add: less_mult_imp_div_less mult.commute)
  then have "le_value (le_bytes n (v div 256)) = v div 256" by (rule Suc.IH)
  then show ?case by (simp add: unat_of_nat)
qed

lemma le_value_bound: "le_value bs < 256 ^ length bs"
proof (induction bs)
  case Nil
  then show ?case by simp
next
  case (Cons b bs)
  have "unat b < 256" using unsigned_less [of b, where ?'a = nat] by simp
  with Cons show ?case by simp
qed

lemma le_bytes_le_value: "le_bytes (length bs) (le_value bs) = bs"
proof (induction bs)
  case Nil
  then show ?case by simp
next
  case (Cons b bs)
  have b: "unat b < 256" using unsigned_less [of b, where ?'a = nat] by simp
  then have "(unat b + 256 * le_value bs) mod 256 = unat b"
    and "(unat b + 256 * le_value bs) div 256 = le_value bs"
    by simp_all
  with Cons show ?case by simp
qed

lemma byteswap_bound: "byteswap n v < 256 ^ n"
  using le_value_bound [of "rev (le_bytes n v)"] by (simp add: byteswap_def)

lemma le_bytes_byteswap: "le_bytes n (byteswap n v) = rev (le_bytes n v)"
  using le_bytes_le_value [of "rev (le_bytes n v)"] by (simp add: byteswap_def)

lemma byteswap_byteswap: "v < 256 ^ n \<Longrightarrow> byteswap n (byteswap n v) = v"
  by (simp add: byteswap_def [of n "byteswap n v"] le_bytes_byteswap le_value_le_bytes)


lemma length_struct_pack [simp]: "length (struct_pack t hl l s a) = 12"
  by (simp add: struct_pack_def)

lemma le_bytes_2: "le_bytes 2 v = [of_nat (v mod 256), of_nat (v div 256 mod 256)]"
  by (simp add: numeral_2_eq_2)

lemma le_bytes_4:
  "le_bytes 4 v = [of_nat (v mod 256), of_nat (v div 256 mod 256),
                   of_nat (v div 256 div 256 mod 256), of_nat (v div 256 div 256 div 256 mod 256)]"
proof -
  have "(4::nat) = Suc (Suc (Suc (Suc 0)))" by simp
  then show ?thesis by (simp only: le_bytes.simps)
qed


lemma struct_unpack_pack:
  assumes "t < 256" "hl < 256" "l < 256 ^ 2" "s < 256 ^ 4" "a < 256 ^ 4"
  shows "struct_unpack (struct_pack t hl l s a) = (t, hl, l, s, a)"
proof -
  let ?h = "struct_pack t hl l s a"
  have h: "?h = of_nat t # of_nat hl # (le_bytes 2 l @ le_bytes 4 s @ le_bytes 4 a)"
    by (simp add: struct_pack_def)
  have 0: "unat (?h ! 0) = t" using assms(1) by (simp add: h unat_of_nat)
  have 1: "unat (?h ! 1) = hl" using assms(2) by (simp add: h unat_of_nat)
  have "drop 2 ?h = le_bytes 2 l @ le_bytes 4 s @ le_bytes 4 a"
    by (simp add: h)
  then have 2: "take 2 (drop 2 ?h) = le_bytes 2 l" by simp
  have "drop 4 ?h = drop 2 (drop 2 ?h)" by simp
  also have "\<dots> = le_bytes 4 s @ le_bytes 4 a"
    by (simp add: h)
  finally have d4: "drop 4 ?h = le_bytes 4 s @ le_bytes 4 a" .
  then have 3: "take 4 (drop 4 ?h) = le_bytes 4 s" by simp
  have "drop 8 ?h = drop 4 (drop 4 ?h)" by simp
  also have "\<dots> = le_bytes 4 a" by (simp only: d4) simp
  finally have 4: "take 4 (drop 8 ?h) = le_bytes 4 a" by simp
  show ?thesis
    unfolding struct_unpack_def 0 1 2 3 4
    using assms(3-5) by (simp add: le_value_le_bytes)
qed

lemma htons_Inr: "htons x = Inr y \<longleftrightarrow> 0 \<le> x \<and> x \<le> 65535 \<and> y = byteswap 2 (nat x)"
  by (auto simp: htons_def)

lemma htonl_Inr: "htonl x = Inr y \<longleftrightarrow> 0 \<le> x \<and> x \<le> 4294967295 \<and> y = byteswap 4 (nat x)"
  by (auto simp: htonl_def)

lemma ntohs_byteswap: "v \<le> 65535 \<Longrightarrow> ntohs (int (byteswap 2 v)) = Inr v"
  using byteswap_bound [of 2 v] byteswap_byteswap [of v 2]
  by (simp add: ntohs_def htons_def)

lemma ntohl_byteswap: "v \<le> 4294967295 \<Longrightarrow> ntohl (int (byteswap 4 v)) = Inr v"
  using byteswap_bound [of 4 v] byteswap_byteswap [of v 4]
  by (simp add: ntohl_def htonl_def)

lemma build_header_Inr:
  "build_header t len sq ak = Inr h \<longleftrightarrow>
     len \<le> 65535 \<and> 0 \<le> sq \<and> sq \<le> 4294967295 \<and> 0 \<le> ak \<and> ak \<le> 4294967295
     \<and> h = struct_pack t HEADER_LEN (byteswap 2 len) (byteswap 4 (nat sq)) (byteswap 4 (nat ak))"
  by (auto simp: build_header_def htons_def htonl_def)

lemma parse_built:
  assumes b: "build_header t len sq ak = Inr h"
    and t: "t < 256"
    and len: "len = HEADER_LEN + length p"
  shows "parse_packet (h @ p) addr =
           Inr \<lparr> pkt_type = t, header_len = HEADER_LEN, pkt_len = len,
                 pkt_seq_num = sq, pkt_ack_num = ak, payload = p, from_addr = addr \<rparr>"
proof -
  from b have bounds: "len \<le> 65535" "0 \<le> sq" "sq \<le> 4294967295" "0 \<le> ak" "ak \<le> 4294967295"
    and h: "h = struct_pack t HEADER_LEN (byteswap 2 len) (byteswap 4 (nat sq)) (byteswap 4 (nat ak))"
    by (simp_all add: build_header_Inr)
  have lh: "length h = 12" by (simp add: h)
  define pk where "pk = h @ p"
  have tk: "take HEADER_LEN pk = h" by (simp add: pk_def lh HEADER_LEN_def)
  have dr: "drop HEADER_LEN pk = p" by (simp add: pk_def lh HEADER_LEN_def)
  have lp: "length pk = len" by (simp add: pk_def lh len HEADER_LEN_def)
  have nil: "p = []" if "\<not> HEADER_LEN < len"
    using that len by simp
  have ge: "HEADER_LEN \<le> len" using len by simp
  have un: "struct_unpack h =
      (t, HEADER_LEN, byteswap 2 len, byteswap 4 (nat sq), byteswap 4 (nat ak))"
    unfolding h
    using t byteswap_bound [of 2 len] byteswap_bound [of 4 "nat sq"] byteswap_bound [of 4 "nat ak"]
    by (intro struct_unpack_pack) (simp_all add: HEADER_LEN_def)
  have s: "ntohs (int (byteswap 2 len)) = Inr len"
    using bounds by (simp add: ntohs_byteswap)
  have q: "ntohl (int (byteswap 4 (nat sq))) = Inr (nat sq)"
    using bounds by (simp add: ntohl_byteswap)
  have a: "ntohl (int (byteswap 4 (nat ak))) = Inr (nat ak)"
    using bounds by (simp add: ntohl_byteswap)
  have "parse_packet pk addr =
           Inr \<lparr> pkt_type = t, header_len = HEADER_LEN, pkt_len = len,
                 pkt_seq_num = sq, pkt_ack_num = ak, payload = p, from_addr = addr \<rparr>"
    unfolding parse_packet_def tk un
    using bounds nil ge by (simp add: s q a lp dr)
  then show ?thesis by (simp only: pk_def)
qed


lemma length_concat_20:
  "\<forall>h\<in>set hs. length h = 20 \<Longrightarrow> length (concat hs) = 20 * length hs"
  by (induction hs) auto

lemma length_concat_replicate: "length (concat (replicate n xs)) = n * length xs"
  by (induction n) auto


lemma pkt_types_small:
  "WHOHAS < 256" "IHAVE < 256" "GET < 256" "DATA < 256" "ACK < 256" "DENIED < 256"
  by (simp_all add: WHOHAS_def IHAVE_def GET_def DATA_def ACK_def DENIED_def)

lemma build_header_ok:
  assumes "len \<le> 65535" "0 \<le> sq" "sq < 2 ^ 32" "0 \<le> ak" "ak < 2 ^ 32"
  shows "\<exists>h. build_header t len sq ak = Inr h"
  using assms by (simp add: build_header_Inr)

lemma build_parse:
  assumes "t < 256" "HEADER_LEN + length p \<le> 65535" "0 \<le> sq" "sq < 2 ^ 32" "0 \<le> ak" "ak < 2 ^ 32"
  shows "\<exists>h. build_header t (HEADER_LEN + length p) sq ak = Inr h \<and>
           parse_packet (h @ p) addr =
             Inr \<lparr> pkt_type = t, header_len = 12, pkt_len = 12 + length p,
                   pkt_seq_num = sq, pkt_ack_num = ak, payload = p, from_addr = addr \<rparr>"
proof -
  from build_header_ok [OF assms(2-6)]
  obtain h where h: "build_header t (HEADER_LEN + length p) sq ak = Inr h" by blast
  from parse_built [OF h assms(1) refl, of addr] h show ?thesis
    by (simp add: HEADER_LEN_def)
qed

text \<open>
  C6 (as the code has it). For WHOHAS and IHAVE with one to 3276 digests of 20 bytes
  (the total length must fit the 16-bit \<open>pkt_len\<close> field), GET with one 20-byte
  digest, DATA with at most 1388 payload bytes and a 32-bit sequence number, ACK with a
  32-bit ack number, and DENIED: the builder succeeds, and parsing the datagram gives
  the same type, header length 12, total length, sequence number, ack number and payload.
\<close>

theorem codec_roundtrip:
  "(hs \<noteq> [] \<and> (\<forall>h\<in>set hs. length h = 20) \<and> length hs \<le> 3276 \<longrightarrow>
      (\<exists>d. build_who_has_packet hs = Inr d \<and>
         parse_packet d addr =
           Inr \<lparr> pkt_type = WHOHAS, header_len = 12, pkt_len = 12 + 20 * length hs,
                 pkt_seq_num = 0, pkt_ack_num = 0, payload = concat hs, from_addr = addr \<rparr>)
    \<and> (\<exists>d. build_i_have_packet hs = Inr d \<and>
         parse_packet d addr =
           Inr \<lparr> pkt_type = IHAVE, header_len = 12, pkt_len = 12 + 20 * length hs,
                 pkt_seq_num = 0, pkt_ack_num = 0, payload = concat hs, from_addr = addr \<rparr>))
   \<and> (length h = 20 \<longrightarrow>
      (\<exists>d. build_get_packet h = Inr d \<and>
         parse_packet d addr =
           Inr \<lparr> pkt_type = GET, header_len = 12, pkt_len = 32,
                 pkt_seq_num = 0, pkt_ack_num = 0, payload = h, from_addr = addr \<rparr>))
   \<and> (length data \<le> 1388 \<and> 0 \<le> sq \<and> sq < 2 ^ 32 \<longrightarrow>
      (\<exists>d. build_data_packet sq data = Inr d \<and>
         parse_packet d addr =
           Inr \<lparr> pkt_type = DATA, header_len = 12, pkt_len = 12 + length data,
                 pkt_seq_num = sq, pkt_ack_num = 0, payload = data, from_addr = addr \<rparr>))
   \<and> (0 \<le> ak \<and> ak < 2 ^ 32 \<longrightarrow>
      (\<exists>d. build_ack_packet ak = Inr d \<and>
         parse_packet d addr =
           Inr \<lparr> pkt_type = ACK, header_len = 12, pkt_len = 12,
                 pkt_seq_num = 0, pkt_ack_num = ak, payload = [], from_addr = addr \<rparr>))
   \<and> (\<exists>d. build_denied_packet = Inr d \<and>
         parse_packet d addr =
           Inr \<lparr> pkt_type = DENIED, header_len = 12, pkt_len = 12,
                 pkt_seq_num = 0, pkt_ack_num = 0, payload = [], from_addr = addr \<rparr>)"
proof (intro conjI impI)
  assume a: "hs \<noteq> [] \<and> (\<forall>h\<in>set hs. length h = 20) \<and> length hs \<le> 3276"
  then have l: "length (concat hs) = 20 * length hs" by (simp add: length_concat_20)
  with a have b: "HEADER_LEN + length (concat hs) \<le> 65535" by (simp add: HEADER_LEN_def)
  from build_parse [OF pkt_types_small(1) b, of 0 0 addr] a l
  show "\<exists>d. build_who_has_packet hs = Inr d \<and>
         parse_packet d addr =
           Inr \<lparr> pkt_type = WHOHAS, header_len = 12, pkt_len = 12 + 20 * length hs,
                 pkt_seq_num = 0, pkt_ack_num = 0, payload = concat hs, from_addr = addr \<rparr>"
    by (auto simp: build_who_has_packet_def)
  from build_parse [OF pkt_types_small(2) b, of 0 0 addr] a l
  show "\<exists>d. build_i_have_packet hs = Inr d \<and>
         parse_packet d addr =
           Inr \<lparr> pkt_type = IHAVE, header_len = 12, pkt_len = 12 + 20 * length hs,
                 pkt_seq_num = 0, pkt_ack_num = 0, payload = concat hs, from_addr = addr \<rparr>"
    by (auto simp: build_i_have_packet_def)
next
  assume a: "length h = 20"
  then have b: "HEADER_LEN + length h \<le> 65535" by (simp add: HEADER_LEN_def)
  from build_parse [OF pkt_types_small(3) b, of 0 0 addr] a
  show "\<exists>d. build_get_packet h = Inr d \<and>
         parse_packet d addr =
           Inr \<lparr> pkt_type = GET, header_len = 12, pkt_len = 32,
                 pkt_seq_num = 0, pkt_ack_num = 0, payload = h, from_addr = addr \<rparr>"
    by (auto simp: build_get_packet_def)
next
  assume a: "length data \<le> 1388 \<and> 0 \<le> sq \<and> sq < 2 ^ 32"
  then have b: "HEADER_LEN + length data \<le> 65535" by (simp add: HEADER_LEN_def)
  from a have c: "0 \<le> sq" "sq < 2 ^ 32" by simp_all
  from build_parse [OF pkt_types_small(4) b c, of 0 addr] a
  show "\<exists>d. build_data_packet sq data = Inr d \<and>
         parse_packet d addr =
           Inr \<lparr> pkt_type = DATA, header_len = 12, pkt_len = 12 + length data,
                 pkt_seq_num = sq, pkt_ack_num = 0, payload = data, from_addr = addr \<rparr>"
    by (auto simp: build_data_packet_def MAX_PAYLOAD_SIZE_def BUF_SIZE_def HEADER_LEN_def)
next
  assume a: "0 \<le> ak \<and> ak < 2 ^ 32"
  then have c: "0 \<le> ak" "ak < 2 ^ 32" by simp_all
  have b: "HEADER_LEN + length ([] :: bytes) \<le> 65535" by (simp add: HEADER_LEN_def)
  from build_parse [OF pkt_types_small(5) b _ _ c, of 0 addr]
  show "\<exists>d. build_ack_packet ak = Inr d \<and>
         parse_packet d addr =
           Inr \<lparr> pkt_type = ACK, header_len = 12, pkt_len = 12,
                 pkt_seq_num = 0, pkt_ack_num = ak, payload = [], from_addr = addr \<rparr>"
    by (auto simp: build_ack_packet_def)
next
  have b: "HEADER_LEN + length ([] :: bytes) \<le> 65535" by (simp add: HEADER_LEN_def)
  from build_parse [OF pkt_types_small(6) b, of 0 0 addr]
  show "\<exists>d. build_denied_packet = Inr d \<and>
         parse_packet d addr =
           Inr \<lparr> pkt_type = DENIED, header_len = 12, pkt_len = 12,
                 pkt_seq_num = 0, pkt_ack_num = 0, payload = [], from_addr = addr \<rparr>"
    by (auto simp: build_denied_packet_def)
qed

theorem codec_roundtrip_witness:
  "(\<exists>d. build_who_has_packet [replicate 20 1, replicate 20 2] = Inr d \<and>
      parse_packet d None =
        Inr \<lparr> pkt_type = WHOHAS, header_len = 12, pkt_len = 52,
              pkt_seq_num = 0, pkt_ack_num = 0,
              payload = replicate 20 1 @ replicate 20 2, from_addr = None \<rparr>)
   \<and> (\<exists>d. build_i_have_packet [replicate 20 1, replicate 20 2] = Inr d \<and>
      parse_packet d None =
        Inr \<lparr> pkt_type = IHAVE, header_len = 12, pkt_len = 52,
              pkt_seq_num = 0, pkt_ack_num = 0,
              payload = replicate 20 1 @ replicate 20 2, from_addr = None \<rparr>)
   \<and> (\<exists>d. build_get_packet (replicate 20 3) = Inr d \<and>
      parse_packet d None =
        Inr \<lparr> pkt_type = GET, header_len = 12, pkt_len = 32,
              pkt_seq_num = 0, pkt_ack_num = 0, payload = replicate 20 3, from_addr = None \<rparr>)
   \<and> (\<exists>d. build_data_packet 5 [72, 105] = Inr d \<and>
      parse_packet d None =
        Inr \<lparr> pkt_type = DATA, header_len = 12, pkt_len = 14,
              pkt_seq_num = 5, pkt_ack_num = 0, payload = [72, 105], from_addr = None \<rparr>)
   \<and> (\<exists>d. build_ack_packet 4294967295 = Inr d \<and>
      parse_packet d None =
        Inr \<lparr> pkt_type = ACK, header_len = 12, pkt_len = 12,
              pkt_seq_num = 0, pkt_ack_num = 4294967295, payload = [], from_addr = None \<rparr>)"
  using codec_roundtrip [where hs = "[replicate 20 1, replicate 20 2]" and h = "replicate 20 3"
          and data = "[72, 105]" and sq = 5 and ak = 4294967295 and addr = None]
  by simp

text \<open>
  A WHOHAS or IHAVE with 3277 digests of 20 bytes has total length 65552, which
  \<open>socket.htons\<close> rejects: the builder raises \<open>OverflowError\<close>.
\<close>

theorem codec_roundtrip_counterexample:
  "replicate 3277 (replicate 20 (0::byte)) \<noteq> []
   \<and> length (replicate 20 (0::byte)) = 20
   \<and> build_who_has_packet (replicate 3277 (replicate 20 0)) = Inl OverflowError
   \<and> build_i_have_packet (replicate 3277 (replicate 20 0)) = Inl OverflowError"
  by (simp add: build_who_has_packet_def build_i_have_packet_def build_header_def htons_def
        length_concat_replicate HEADER_LEN_def)

section \<open>Hexadecimal digests and digest lists\<close>





lemma bytes_to_hex_string_Nil [simp]: "bytes_to_hex_string [] = []"
  by (simp add: bytes_to_hex_string_def)











section \<open>What \<open>parse_packet\<close> accepts\<close>


lemma nth_pairs:
  assumes "i + 1 < length xs"
  shows "take 2 (drop i xs) = [xs ! i, xs ! (i + 1)]"
proof -
  from assms have "drop i xs = xs ! i # drop (Suc i) xs"
    by (simp add: Cons_nth_drop_Suc)
  moreover from assms have "drop (Suc i) xs = xs ! (i + 1) # drop (Suc (Suc i)) xs"
    by (simp add: Cons_nth_drop_Suc)
  ultimately show ?thesis by simp
qed

lemma byteswap_2_bytes:
  fixes a b :: byte
  shows "byteswap 2 (le_value [a, b]) = 256 * unat a + unat b"
proof -
  have a: "unat a < 256" and b: "unat b < 256"
    using unsigned_less [of a, where ?'a = nat] unsigned_less [of b, where ?'a = nat] by simp_all
  then have "(unat a + 256 * unat b) mod 256 = unat a" "(unat a + 256 * unat b) div 256 = unat b"
    by simp_all
  with a b show ?thesis
    by (simp add: byteswap_def le_bytes_2 unat_of_nat)
qed

lemma ntohl_le_value: "length bs = 4 \<Longrightarrow> \<exists>v. ntohl (int (le_value bs)) = Inr v"
  using le_value_bound [of bs] by (simp add: ntohl_def htonl_def)

lemma parse_packet_long:
  assumes "\<not> length d < 12"
  shows "\<exists>s k. parse_packet d a =
     (if 256 * unat (d ! 2) + unat (d ! 3) \<noteq> length d then Inl ValueError
      else Inr \<lparr> pkt_type = unat (d ! 0), header_len = unat (d ! 1),
                 pkt_len = 256 * unat (d ! 2) + unat (d ! 3),
                 pkt_seq_num = s, pkt_ack_num = k,
                 payload = (if unat (d ! 1) < length d then drop (unat (d ! 1)) d else []),
                 from_addr = a \<rparr>)"
proof -
  let ?h = "take 12 d"
  have l: "length ?h = 12" using assms by simp
  have t2: "take 2 (drop 2 ?h) = [d ! 2, d ! 3]"
    using nth_pairs [of 2 ?h] l by simp
  define sv where "sv = le_value (take 4 (drop 4 ?h))"
  define kv where "kv = le_value (take 4 (drop 8 ?h))"
  obtain s where s: "ntohl (int sv) = Inr s"
    unfolding sv_def using ntohl_le_value [of "take 4 (drop 4 ?h)"] l by auto
  obtain k where k: "ntohl (int kv) = Inr k"
    unfolding kv_def using ntohl_le_value [of "take 4 (drop 8 ?h)"] l by auto
  define v where "v = le_value [d ! 2, d ! 3]"
  have "v < 256 ^ 2"
    unfolding v_def using le_value_bound [of "[d ! 2, d ! 3]"] by (simp del: le_value.simps)
  then have "v \<le> 65535" by simp
  then have "ntohs (int v) = Inr (byteswap 2 v)"
    by (simp add: ntohs_def htons_def)
  then have p: "ntohs (int v) = Inr (256 * unat (d ! 2) + unat (d ! 3))"
    by (simp only: v_def byteswap_2_bytes)
  have un: "struct_unpack ?h =
      (unat (d ! 0), unat (d ! 1), v, sv, kv)"
    unfolding struct_unpack_def t2 v_def sv_def kv_def using assms by simp
  have "parse_packet d a =
     (if 256 * unat (d ! 2) + unat (d ! 3) \<noteq> length d then Inl ValueError
      else Inr \<lparr> pkt_type = unat (d ! 0), header_len = unat (d ! 1),
                 pkt_len = 256 * unat (d ! 2) + unat (d ! 3),
                 pkt_seq_num = int s, pkt_ack_num = int k,
                 payload = (if unat (d ! 1) < length d then drop (unat (d ! 1)) d else []),
                 from_addr = a \<rparr>)"
    unfolding parse_packet_def HEADER_LEN_def un
    using assms by (simp add: p s k)
  then show ?thesis by blast
qed

lemma parse_packet_short: "length d < 12 \<Longrightarrow> parse_packet d a = Inl ValueError"
  by (simp add: parse_packet_def HEADER_LEN_def)


section \<open>Congestion control\<close>

lemma py_int_nonneg: "0 \<le> x \<Longrightarrow> py_int x = \<lfloor>x\<rfloor>"
  by (simp add: py_int_def)

lemma max_py_int_floor:
  assumes "0 < k"
  shows "max (py_int x) k = max \<lfloor>x\<rfloor> k"
proof (cases "0 \<le> x")
  case True
  then show ?thesis by (simp add: py_int_def)
next
  case False
  then have "x \<le> 0" by simp
  then have "\<lceil>x\<rceil> \<le> 0" and "\<lfloor>x\<rfloor> \<le> 0"
    by (simp_all add: ceiling_le_iff floor_le_iff)
  then have "max \<lceil>x\<rceil> k = k" and "max \<lfloor>x\<rfloor> k = k"
    using assms by linarith+
  with False show ?thesis by (simp add: py_int_def)
qed

lemma get_send_window_floor: "get_send_window c = max 1 \<lfloor>cwnd c\<rfloor>"
  using max_py_int_floor [of 1 "cwnd c"] by (simp add: get_send_window_def max.commute)

lemma update_cwnd_on_ack_ge1:
  assumes "1 \<le> cwnd c"
  shows "\<exists>c'. update_cwnd_on_ack c = Inr c' \<and> cwnd c \<le> cwnd c'"
  using assms by (auto simp: update_cwnd_on_ack_def)

lemma cc_run_ge1:
  "1 \<le> cwnd c \<Longrightarrow> \<exists>c'. cc_run c es = Inr c' \<and> 1 \<le> cwnd c'"
proof (induction es arbitrary: c)
  case Nil
  then show ?case by simp
next
  case (Cons e es)
  show ?case
  proof (cases e)
    case NewAck
    from update_cwnd_on_ack_ge1 [OF Cons.prems]
    obtain c1 where c1: "update_cwnd_on_ack c = Inr c1" "cwnd c \<le> cwnd c1" by blast
    with Cons.prems have "1 \<le> cwnd c1" by simp
    from Cons.IH [OF this] c1 NewAck show ?thesis by simp
  next
    case Loss
    have "1 \<le> cwnd (update_cwnd_on_loss c)" by (simp add: update_cwnd_on_loss_def)
    from Cons.IH [OF this] Loss show ?thesis by simp
  qed
qed

text \<open>
  C8. Each new ACK adds 1 to \<open>cwnd\<close> in slow start (\<open>cwnd < ssthresh\<close>) and
  \<open>1 / cwnd\<close> otherwise; a loss sets \<open>ssthresh\<close> to \<open>max(floor(cwnd / 2), 2)\<close> and \<open>cwnd\<close>
  to 1; from a window of at least 1, every interleaving of these updates runs without
  error and keeps \<open>cwnd\<close> at 1 or more; the send window is always
  \<open>max(1, floor(cwnd))\<close>.
\<close>

theorem congestion_laws:
  "(cwnd c < real_of_int (ssthresh c) \<longrightarrow>
      update_cwnd_on_ack c = Inr (c\<lparr>cwnd := cwnd c + 1\<rparr>))
   \<and> (\<not> cwnd c < real_of_int (ssthresh c) \<and> 1 \<le> cwnd c \<longrightarrow>
      update_cwnd_on_ack c = Inr (c\<lparr>cwnd := cwnd c + 1 / cwnd c\<rparr>))
   \<and> (a > ack_num c \<and> 1 \<le> cwnd c \<longrightarrow>
      (\<exists>c'. handle_ack now a c = Inr (True, c')
         \<and> cwnd c' = (if cwnd c < real_of_int (ssthresh c) then cwnd c + 1
                      else cwnd c + 1 / cwnd c)))
   \<and> ssthresh (update_cwnd_on_loss c) = max \<lfloor>cwnd c / 2\<rfloor> 2
   \<and> cwnd (update_cwnd_on_loss c) = 1
   \<and> (1 \<le> cwnd c \<longrightarrow> (\<exists>c'. cc_run c es = Inr c' \<and> 1 \<le> cwnd c'
         \<and> get_send_window c' = max 1 \<lfloor>cwnd c'\<rfloor>))
   \<and> get_send_window c = max 1 \<lfloor>cwnd c\<rfloor>"
proof (intro conjI impI)
  show "update_cwnd_on_ack c = Inr (c\<lparr>cwnd := cwnd c + 1\<rparr>)"
    if "cwnd c < real_of_int (ssthresh c)"
    using that by (simp add: update_cwnd_on_ack_def)
  show "update_cwnd_on_ack c = Inr (c\<lparr>cwnd := cwnd c + 1 / cwnd c\<rparr>)"
    if "\<not> cwnd c < real_of_int (ssthresh c) \<and> 1 \<le> cwnd c"
    using that by (auto simp: update_cwnd_on_ack_def)
  show "\<exists>c'. handle_ack now a c = Inr (True, c')
         \<and> cwnd c' = (if cwnd c < real_of_int (ssthresh c) then cwnd c + 1
                      else cwnd c + 1 / cwnd c)"
    if "a > ack_num c \<and> 1 \<le> cwnd c"
    using that by (auto simp: handle_ack_def update_cwnd_on_ack_def)
  show "ssthresh (update_cwnd_on_loss c) = max \<lfloor>cwnd c / 2\<rfloor> 2"
    using max_py_int_floor [of 2 "cwnd c / 2"] by (simp add: update_cwnd_on_loss_def)
  show "cwnd (update_cwnd_on_loss c) = 1"
    by (simp add: update_cwnd_on_loss_def)
  show "\<exists>c'. cc_run c es = Inr c' \<and> 1 \<le> cwnd c' \<and> get_send_window c' = max 1 \<lfloor>cwnd c'\<rfloor>"
    if "1 \<le> cwnd c"
    using cc_run_ge1 [OF that, of es] by (auto simp: get_send_window_floor)
  show "get_send_window c = max 1 \<lfloor>cwnd c\<rfloor>"
    by (rule get_send_window_floor)
qed

theorem congestion_laws_witness:
  "update_cwnd_on_ack (Connection_init 0 (''10.0.0.1'', 8000) ''ab'' UPLOAD)
     = Inr ((Connection_init 0 (''10.0.0.1'', 8000) ''ab'' UPLOAD)\<lparr>cwnd := 2\<rparr>)
   \<and> update_cwnd_on_ack
        ((Connection_init 0 (''10.0.0.1'', 8000) ''ab'' UPLOAD)\<lparr>cwnd := 4, ssthresh := 4\<rparr>)
     = Inr ((Connection_init 0 (''10.0.0.1'', 8000) ''ab'' UPLOAD)
              \<lparr>cwnd := 17 / 4, ssthresh := 4\<rparr>)
   \<and> (\<exists>c'. handle_ack 5 1 (Connection_init 0 (''10.0.0.1'', 8000) ''ab'' UPLOAD)
           = Inr (True, c') \<and> cwnd c' = 2)
   \<and> (\<exists>c'. cc_run (Connection_init 0 (''10.0.0.1'', 8000) ''ab'' UPLOAD)
              [NewAck, NewAck, Loss, NewAck] = Inr c'
         \<and> 1 \<le> cwnd c' \<and> get_send_window c' = max 1 \<lfloor>cwnd c'\<rfloor>)"
  using congestion_laws [where c = "Connection_init 0 (''10.0.0.1'', 8000) ''ab'' UPLOAD"
            and a = 1 and now = 5 and es = "[NewAck, NewAck, Loss, NewAck]"]
        congestion_laws [where c = "(Connection_init 0 (''10.0.0.1'', 8000) ''ab'' UPLOAD)
                                      \<lparr>cwnd := 4, ssthresh := 4\<rparr>"
            and a = 1 and now = 5 and es = "[]"]
  by (simp add: Connection_init_def update_cwnd_on_ack_def update_cwnd_on_loss_def
        handle_ack_def get_send_window_def py_int_def)

section \<open>Receiving: the cumulative acknowledgement\<close>



lemma drain_fields:
  "drain c = c\<lparr>chunk_data := chunk_data (drain c), ack_num := ack_num (drain c)\<rparr>"
proof (induction c rule: drain.induct)
  case (1 c)
  show ?case
  proof (cases "map_of (recv_buffer c) (ack_num c + 1)")
    case None
    then show ?thesis by (simp add: drain.simps [of c])
  next
    case (Some d)
    let ?c' = "c\<lparr>chunk_data := chunk_data c @ d, ack_num := ack_num c + 1\<rparr>"
    have d: "drain c = drain ?c'" using Some by (simp add: drain.simps [of c])
    from "1.IH" [OF Some]
    have "drain ?c' = ?c'\<lparr>chunk_data := chunk_data (drain ?c'), ack_num := ack_num (drain ?c')\<rparr>" .
    then show ?thesis unfolding d by simp
  qed
qed

lemma drain_recv_buffer [simp]: "recv_buffer (drain c) = recv_buffer c"
  by (subst drain_fields) simp

lemma drain_direction [simp]: "direction (drain c) = direction c"
  by (subst drain_fields) simp

lemma drain_state [simp]: "state (drain c) = state c"
  by (subst drain_fields) simp

lemma drain_peer_addr [simp]: "peer_addr (drain c) = peer_addr c"
  by (subst drain_fields) simp

lemma drain_chunk_hash [simp]: "chunk_hash (drain c) = chunk_hash c"
  by (subst drain_fields) simp

lemma drain_first_packet_time [simp]: "first_packet_time (drain c) = first_packet_time c"
  by (subst drain_fields) simp

lemma drain_delivered:
  "delivered c \<Longrightarrow>
     delivered (drain c) \<and> map_of (recv_buffer c) (ack_num (drain c) + 1) = None
     \<and> ack_num c \<le> ack_num (drain c)"
proof (induction c rule: drain.induct)
  case (1 c)
  show ?case
  proof (cases "map_of (recv_buffer c) (ack_num c + 1)")
    case None
    with "1.prems" show ?thesis by (simp add: drain.simps [of c])
  next
    case (Some d)
    let ?c' = "c\<lparr>chunk_data := chunk_data c @ d, ack_num := ack_num c + 1\<rparr>"
    have d: "drain c = drain ?c'" using Some by (simp add: drain.simps [of c])
    from "1.prems" have a: "0 \<le> ack_num c" by (simp add: delivered_def)
    then have up: "[1..ack_num c + 1] = [1..ack_num c] @ [ack_num c + 1]"
      using upto_rec2 [of 1 "ack_num c + 1"] by simp
    have "delivered ?c'"
      unfolding delivered_def
    proof (intro conjI allI impI)
      show "0 \<le> ack_num ?c'" using a by simp
      show "map_of (recv_buffer ?c') k \<noteq> None" if "1 \<le> k \<and> k \<le> ack_num ?c'" for k
      proof (cases "k = ack_num c + 1")
        case True
        with Some show ?thesis by simp
      next
        case False
        with that have "1 \<le> k \<and> k \<le> ack_num c" by simp
        with "1.prems" show ?thesis by (simp add: delivered_def)
      qed
      show "chunk_data ?c' = concat (map (\<lambda>k. the (map_of (recv_buffer ?c') k)) [1..ack_num ?c'])"
        using "1.prems" Some by (simp add: delivered_def up)
    qed
    from "1.IH" [OF Some this] show ?thesis unfolding d by simp
  qed
qed


lemma map_of_snoc:
  "map_of (xs @ [(s, d)]) k = (case map_of xs k of None \<Rightarrow> (if k = s then Some d else None) | Some v \<Rightarrow> Some v)"
  by (simp add: map_add_def split: option.splits)

lemma add_received_data_delivered:
  assumes "delivered c" "map_of (recv_buffer c) (ack_num c + 1) = None"
  shows "delivered (snd (add_received_data s d c))
         \<and> map_of (recv_buffer (snd (add_received_data s d c)))
              (ack_num (snd (add_received_data s d c)) + 1) = None
         \<and> ack_num c \<le> ack_num (snd (add_received_data s d c))"
proof (cases "direction c = DOWNLOAD \<and> map_of (recv_buffer c) s = None")
  case False
  then have "snd (add_received_data s d c) = c"
    by (auto simp: add_received_data_def)
  with assms show ?thesis by simp
next
  case True
  let ?c1 = "c\<lparr>recv_buffer := recv_buffer c @ [(s, d)],
                 bytes_transferred := bytes_transferred c + int (length d)\<rparr>"
  have r: "snd (add_received_data s d c) = drain ?c1"
    using True by (simp add: add_received_data_def)
  have same: "map_of (recv_buffer c @ [(s, d)]) k = map_of (recv_buffer c) k"
    if "1 \<le> k \<and> k \<le> ack_num c" for k
  proof -
    from assms(1) that obtain v where "map_of (recv_buffer c) k = Some v"
      by (auto simp: delivered_def)
    then show ?thesis by (simp add: map_of_snoc del: map_of_append)
  qed
  have mp: "map (\<lambda>k. the (map_of (recv_buffer c @ [(s, d)]) k)) [1..ack_num c]
      = map (\<lambda>k. the (map_of (recv_buffer c) k)) [1..ack_num c]"
    by (rule map_cong [OF refl]) (simp add: same del: map_of_append)
  have "delivered ?c1"
    unfolding delivered_def
  proof (intro conjI allI impI)
    show "0 \<le> ack_num ?c1" using assms(1) by (simp add: delivered_def)
    show "map_of (recv_buffer ?c1) k \<noteq> None" if "1 \<le> k \<and> k \<le> ack_num ?c1" for k
      using that same [of k] assms(1) by (simp add: delivered_def del: map_of_append)
    have "chunk_data c = concat (map (\<lambda>k. the (map_of (recv_buffer c) k)) [1..ack_num c])"
      using assms(1) by (simp add: delivered_def)
    then show "chunk_data ?c1
        = concat (map (\<lambda>k. the (map_of (recv_buffer ?c1) k)) [1..ack_num ?c1])"
      by (simp add: mp del: map_of_append)
  qed
  from drain_delivered [OF this] show ?thesis unfolding r by simp
qed

lemma add_received_data_keys:
  "fst ` set (recv_buffer (snd (add_received_data s d c)))
     = (if direction c = DOWNLOAD then insert s (fst ` set (recv_buffer c))
        else fst ` set (recv_buffer c))"
  by (auto simp: add_received_data_def map_of_eq_None_iff)

lemma add_received_data_direction [simp]:
  "direction (snd (add_received_data s d c)) = direction c"
  by (simp add: add_received_data_def)

lemma add_all_invariant:
  assumes "delivered c" "map_of (recv_buffer c) (ack_num c + 1) = None" "direction c = DOWNLOAD"
  shows "delivered (add_all xs c)
         \<and> map_of (recv_buffer (add_all xs c)) (ack_num (add_all xs c) + 1) = None
         \<and> fst ` set (recv_buffer (add_all xs c)) = fst ` set (recv_buffer c) \<union> fst ` set xs
         \<and> ack_num c \<le> ack_num (add_all xs c)"
  using assms
proof (induction xs arbitrary: c)
  case Nil
  then show ?case by simp
next
  case (Cons x xs)
  obtain s d where x: "x = (s, d)" by (cases x)
  let ?c = "snd (add_received_data s d c)"
  from add_received_data_delivered [OF Cons.prems(1,2), of s d]
  have 1: "delivered ?c" "map_of (recv_buffer ?c) (ack_num ?c + 1) = None" "ack_num c \<le> ack_num ?c"
    by simp_all
  have 2: "direction ?c = DOWNLOAD" using Cons.prems(3) by simp
  have 3: "fst ` set (recv_buffer ?c) = insert s (fst ` set (recv_buffer c))"
    using Cons.prems(3) by (simp add: add_received_data_keys)
  from Cons.IH [OF 1(1,2) 2] 1(3) show ?case
    by (simp add: x 3)
qed

lemma delivered_init: "delivered (Connection_init now addr h d)"
  by (simp add: delivered_def Connection_init_def)

text \<open>
  C3 (as the code has it). \<open>add_received_data\<close> never removes an entry of
  \<open>recv_buffer\<close>: after any sequence of calls on a fresh download connection, the next
  expected sequence number \<open>ack_num + 1\<close> is not a key, every sequence number from 1 to
  \<open>ack_num\<close> is still a key, the keys are exactly the sequence numbers received, and
  \<open>chunk_data\<close> is the concatenation of the entries 1 to \<open>ack_num\<close>.
\<close>

theorem recv_buffer_retains_delivered:
  "map_of (recv_buffer (add_all xs (Connection_init now addr h DOWNLOAD)))
      (ack_num (add_all xs (Connection_init now addr h DOWNLOAD)) + 1) = None
   \<and> (\<forall>k. 1 \<le> k \<and> k \<le> ack_num (add_all xs (Connection_init now addr h DOWNLOAD)) \<longrightarrow>
         map_of (recv_buffer (add_all xs (Connection_init now addr h DOWNLOAD))) k \<noteq> None)
   \<and> fst ` set (recv_buffer (add_all xs (Connection_init now addr h DOWNLOAD))) = fst ` set xs
   \<and> chunk_data (add_all xs (Connection_init now addr h DOWNLOAD))
       = concat (map (\<lambda>k. the (map_of (recv_buffer (add_all xs (Connection_init now addr h DOWNLOAD))) k))
                   [1..ack_num (add_all xs (Connection_init now addr h DOWNLOAD))])"
proof -
  let ?c0 = "Connection_init now addr h DOWNLOAD"
  have "map_of (recv_buffer ?c0) (ack_num ?c0 + 1) = None" "direction ?c0 = DOWNLOAD"
    "recv_buffer ?c0 = []"
    by (simp_all add: Connection_init_def)
  with add_all_invariant [OF delivered_init this(1,2), where xs = xs]
  show ?thesis by (simp add: delivered_def)
qed

theorem recv_buffer_retains_delivered_witness:
  "map_of (recv_buffer (add_all [(2, [7]), (1, [5])] (Connection_init 0 (''10.0.0.1'', 8000) ''ab'' DOWNLOAD))) 3 = None
   \<and> ack_num (add_all [(2, [7]), (1, [5])] (Connection_init 0 (''10.0.0.1'', 8000) ''ab'' DOWNLOAD)) = 2
   \<and> map_of (recv_buffer (add_all [(2, [7]), (1, [5])] (Connection_init 0 (''10.0.0.1'', 8000) ''ab'' DOWNLOAD))) 1 = Some [5]
   \<and> map_of (recv_buffer (add_all [(2, [7]), (1, [5])] (Connection_init 0 (''10.0.0.1'', 8000) ''ab'' DOWNLOAD))) 2 = Some [7]
   \<and> chunk_data (add_all [(2, [7]), (1, [5])] (Connection_init 0 (''10.0.0.1'', 8000) ''ab'' DOWNLOAD)) = [5, 7]"
  using recv_buffer_retains_delivered [of "[(2, [7]), (1, [5])]" 0 "(''10.0.0.1'', 8000)" "''ab''"]
  by (simp add: add_received_data_def Connection_init_def drain.simps)

text \<open>
  After the first packet of a chunk, key 1 is in \<open>recv_buffer\<close> and \<open>ack_num\<close> is 1:
  the key is not greater than \<open>ack_num\<close>.
\<close>

theorem recv_buffer_keys_counterexample:
  "map_of (recv_buffer (snd (add_received_data 1 [5]
       (Connection_init 0 (''10.0.0.1'', 8000) ''ab'' DOWNLOAD)))) 1 = Some [5]
   \<and> ack_num (snd (add_received_data 1 [5]
       (Connection_init 0 (''10.0.0.1'', 8000) ''ab'' DOWNLOAD))) = 1"
  by (simp add: add_received_data_def Connection_init_def drain.simps)

section \<open>Downloads: the packets of one chunk\<close>


lemma map_nth_upto:
  "n \<le> length ps \<Longrightarrow> map (\<lambda>k. ps ! nat (k - 1)) [1..int n] = take n ps"
proof (induction n)
  case 0
  then show ?case by simp
next
  case (Suc n)
  have "[1..int (Suc n)] = [1..int n] @ [int n + 1]"
    using upto_rec2 [of 1 "int n + 1"] by (simp add: add.commute)
  with Suc show ?case
    by (simp add: take_Suc_conv_app_nth)
qed

lemma length_concat_take: "length (concat (take n xs)) \<le> length (concat xs)"
proof -
  have "length (concat xs) = length (concat (take n xs)) + length (concat (drop n xs))"
    by (metis append_take_drop_id concat_append length_append)
  then show ?thesis by simp
qed

lemma download_inv_ack_le:
  assumes "download_inv ps c"
  shows "0 \<le> ack_num c" and "ack_num c \<le> int (length ps)"
proof -
  from assms show 0: "0 \<le> ack_num c" by (simp add: download_inv_def delivered_def)
  show "ack_num c \<le> int (length ps)"
  proof (cases "ack_num c = 0")
    case True
    then show ?thesis by simp
  next
    case False
    with 0 have "1 \<le> ack_num c \<and> ack_num c \<le> ack_num c" by simp
    with assms obtain d where "map_of (recv_buffer c) (ack_num c) = Some d"
      unfolding download_inv_def delivered_def by blast
    with assms show ?thesis unfolding download_inv_def by blast
  qed
qed

lemma download_inv_chunk_data:
  assumes "download_inv ps c"
  shows "chunk_data c = concat (take (nat (ack_num c)) ps)"
proof -
  note b = download_inv_ack_le [OF assms]
  have e1: "map (\<lambda>k. the (map_of (recv_buffer c) k)) [1..ack_num c]
      = map (\<lambda>k. ps ! nat (k - 1)) [1..ack_num c]"
  proof (rule map_cong [OF refl])
    fix k assume "k \<in> set [1..ack_num c]"
    then have k: "1 \<le> k \<and> k \<le> ack_num c" by simp
    with assms obtain d where d: "map_of (recv_buffer c) k = Some d"
      unfolding download_inv_def delivered_def by blast
    with assms have "d = ps ! nat (k - 1)" unfolding download_inv_def by blast
    with d show "the (map_of (recv_buffer c) k) = ps ! nat (k - 1)" by simp
  qed
  have "map (\<lambda>k. ps ! nat (k - 1)) [1..int (nat (ack_num c))] = take (nat (ack_num c)) ps"
    using b by (intro map_nth_upto) simp
  then have e2: "map (\<lambda>k. ps ! nat (k - 1)) [1..ack_num c] = take (nat (ack_num c)) ps"
    using b by simp
  from assms have "chunk_data c
      = concat (map (\<lambda>k. the (map_of (recv_buffer c) k)) [1..ack_num c])"
    by (simp add: download_inv_def delivered_def)
  then show ?thesis by (simp only: e1 e2)
qed

lemma download_inv_complete:
  assumes "download_inv ps c"
  shows "ack_num c = int (length ps) \<longleftrightarrow> {1..int (length ps)} \<subseteq> fst ` set (recv_buffer c)"
proof
  assume a: "ack_num c = int (length ps)"
  show "{1..int (length ps)} \<subseteq> fst ` set (recv_buffer c)"
  proof
    fix k assume "k \<in> {1..int (length ps)}"
    with a have "1 \<le> k \<and> k \<le> ack_num c" by simp
    with assms have "map_of (recv_buffer c) k \<noteq> None"
      unfolding download_inv_def delivered_def by blast
    then show "k \<in> fst ` set (recv_buffer c)" by (simp add: map_of_eq_None_iff)
  qed
next
  assume s: "{1..int (length ps)} \<subseteq> fst ` set (recv_buffer c)"
  note b = download_inv_ack_le [OF assms]
  from assms have "ack_num c + 1 \<notin> fst ` set (recv_buffer c)"
    by (simp add: download_inv_def map_of_eq_None_iff)
  with s have "ack_num c + 1 \<notin> {1..int (length ps)}" by blast
  with b show "ack_num c = int (length ps)" by simp
qed

lemma download_inv_incomplete_length:
  assumes "download_inv ps c" "ack_num c \<noteq> int (length ps)"
    and "length (concat (butlast ps)) < CHUNK_SIZE"
  shows "length (chunk_data c) < CHUNK_SIZE"
proof -
  note b = download_inv_ack_le [OF assms(1)]
  with assms(2) have lt: "nat (ack_num c) \<le> length ps - 1" by simp
  have "take (nat (ack_num c)) ps = take (nat (ack_num c)) (butlast ps)"
    using lt by (simp add: butlast_conv_take min_def)
  then have "length (chunk_data c) \<le> length (concat (butlast ps))"
    using length_concat_take [of "nat (ack_num c)" "butlast ps"]
    by (simp add: download_inv_chunk_data [OF assms(1)])
  with assms(3) show ?thesis by simp
qed

lemma download_inv_init: "download_inv ps (Connection_init now addr h DOWNLOAD)"
  by (simp add: download_inv_def delivered_init) (simp add: Connection_init_def)

lemma download_inv_cong:
  assumes "recv_buffer c' = recv_buffer c" "ack_num c' = ack_num c"
    "chunk_data c' = chunk_data c" "direction c' = direction c"
  shows "download_inv ps c' = download_inv ps c"
  using assms by (simp add: download_inv_def delivered_def)

lemma add_received_data_inv:
  assumes inv: "download_inv ps c" and k: "1 \<le> k" "k \<le> int (length ps)"
  shows "download_inv ps (snd (add_received_data k (ps ! nat (k - 1)) c))"
    and "fst ` set (recv_buffer (snd (add_received_data k (ps ! nat (k - 1)) c)))
           = insert k (fst ` set (recv_buffer c))"
    and "fst (add_received_data k (ps ! nat (k - 1)) c) \<longleftrightarrow> k \<notin> fst ` set (recv_buffer c)"
proof -
  define c' where "c' = snd (add_received_data k (ps ! nat (k - 1)) c)"
  from inv have d: "direction c = DOWNLOAD" "delivered c"
    "map_of (recv_buffer c) (ack_num c + 1) = None"
    by (simp_all add: download_inv_def)
  from inv have old: "1 \<le> j \<and> j \<le> int (length ps) \<and> x = ps ! nat (j - 1)"
    if "map_of (recv_buffer c) j = Some x" for j x
    using that unfolding download_inv_def by blast
  from add_received_data_delivered [OF d(2,3), of k "ps ! nat (k - 1)"]
  have 1: "delivered c'" "map_of (recv_buffer c') (ack_num c' + 1) = None"
    unfolding c'_def by simp_all
  have dir: "direction c' = DOWNLOAD" unfolding c'_def using d(1) by simp
  have rb: "recv_buffer c' = recv_buffer c \<or> recv_buffer c' = recv_buffer c @ [(k, ps ! nat (k - 1))]"
    unfolding c'_def using d(1) by (simp add: add_received_data_def)
  have 2: "1 \<le> j \<and> j \<le> int (length ps) \<and> x = ps ! nat (j - 1)"
    if t: "map_of (recv_buffer c') j = Some x" for j x
    using rb
  proof
    assume "recv_buffer c' = recv_buffer c"
    with t old show ?thesis by simp
  next
    assume a: "recv_buffer c' = recv_buffer c @ [(k, ps ! nat (k - 1))]"
    show ?thesis
    proof (cases "map_of (recv_buffer c) j")
      case (Some y)
      with t a have "x = y" by (simp add: map_of_snoc del: map_of_append)
      with Some old show ?thesis by simp
    next
      case None
      with t a have "j = k \<and> x = ps ! nat (k - 1)"
        by (simp add: map_of_snoc del: map_of_append split: if_splits)
      with k show ?thesis by simp
    qed
  qed
  show "download_inv ps (snd (add_received_data k (ps ! nat (k - 1)) c))"
    unfolding download_inv_def c'_def [symmetric]
  proof (intro conjI allI impI)
    show "direction c' = DOWNLOAD" by (rule dir)
    show "delivered c'" by (rule 1)
    show "map_of (recv_buffer c') (ack_num c' + 1) = None" by (rule 1)
    fix j x assume t: "map_of (recv_buffer c') j = Some x"
    from 2 [OF t] show "1 \<le> j" "j \<le> int (length ps)" "x = ps ! nat (j - 1)" by simp_all
  qed
  show "fst ` set (recv_buffer (snd (add_received_data k (ps ! nat (k - 1)) c)))
           = insert k (fst ` set (recv_buffer c))"
    using d(1) by (simp add: add_received_data_keys)
  show "fst (add_received_data k (ps ! nat (k - 1)) c) \<longleftrightarrow> k \<notin> fst ` set (recv_buffer c)"
    using d(1) by (simp add: add_received_data_def map_of_eq_None_iff)
qed



lemma add_received_data_frame [simp]:
  "peer_addr (snd (add_received_data s d c)) = peer_addr c"
  "state (snd (add_received_data s d c)) = state c"
  "chunk_hash (snd (add_received_data s d c)) = chunk_hash c"
  by (simp_all add: add_received_data_def)

lemma add_received_data_old: "\<not> fst (add_received_data s d c) \<Longrightarrow> snd (add_received_data s d c) = c"
  by (auto simp: add_received_data_def split: if_splits)

lemma build_ack_packet_ok:
  assumes "0 \<le> n" "n < 2 ^ 32"
  shows "\<exists>p. build_ack_packet n = Inr p"
  unfolding build_ack_packet_def
  using build_header_ok [of HEADER_LEN 0 n ACK] assms by (simp add: HEADER_LEN_def)

lemma receive_data_step:
  assumes inv: "download_inv ps c" and k: "1 \<le> k" "k \<le> int (length ps)"
    and n: "length ps < 2 ^ 32"
  shows "\<exists>r ackp c'.
           receive_data now k (ps ! nat (k - 1)) c = Inr (r, [(ackp, peer_addr c)], c')
         \<and> is_ack_to (peer_addr c) (ackp, peer_addr c)
         \<and> download_inv ps c'
         \<and> fst ` set (recv_buffer c') = insert k (fst ` set (recv_buffer c))
         \<and> peer_addr c' = peer_addr c
         \<and> state c' = (if k \<notin> fst ` set (recv_buffer c) \<and> CHUNK_SIZE \<le> length (chunk_data c')
                        then COMPLETE else state c)"
proof -
  define new where "new = fst (add_received_data k (ps ! nat (k - 1)) c)"
  define c1 where "c1 = snd (add_received_data k (ps ! nat (k - 1)) c)"
  have a: "add_received_data k (ps ! nat (k - 1)) c = (new, c1)"
    by (simp add: new_def c1_def)
  note s = add_received_data_inv [OF inv k, folded c1_def new_def]
  have dir: "direction c1 = DOWNLOAD" using s(1) by (simp add: download_inv_def)
  have pa: "peer_addr c1 = peer_addr c" by (simp add: c1_def)
  have st: "state c1 = state c" by (simp add: c1_def)
  note b = download_inv_ack_le [OF s(1)]
  have "ack_num c1 < 2 ^ 32" using b(2) n by simp
  from build_ack_packet_ok [OF b(1) this]
  obtain ackp where ackp: "build_ack_packet (ack_num c1) = Inr ackp" by blast
  then have isack: "is_ack_to (peer_addr c) (ackp, peer_addr c)"
    by (auto simp: is_ack_to_def)
  show ?thesis
  proof (cases new)
    case False
    then have r: "receive_data now k (ps ! nat (k - 1)) c = Inr (None, [(ackp, peer_addr c)], c1)"
      by (simp add: receive_data_def a ackp pa)
    from False s(3) have "k \<in> fst ` set (recv_buffer c)" by simp
    with r isack s(1,2) pa st show ?thesis by simp
  next
    case True
    define c2 where "c2 = (case first_packet_time c1 of
                      Some t \<Rightarrow> update_timeout_on_ack (now - t) c1
                    | None \<Rightarrow> c1\<lparr>first_packet_time := Some now\<rparr>)"
    have f: "recv_buffer c2 = recv_buffer c1" "ack_num c2 = ack_num c1"
      "chunk_data c2 = chunk_data c1" "direction c2 = direction c1"
      "peer_addr c2 = peer_addr c1" "state c2 = state c1" "chunk_hash c2 = chunk_hash c1"
      by (simp_all add: c2_def update_timeout_on_ack_def Let_def split: option.splits)
    have i2: "download_inv ps c2"
      using download_inv_cong [OF f(1-4), of ps] s(1) by simp
    define c3 where "c3 = (if CHUNK_SIZE \<le> length (chunk_data c2) then update_state COMPLETE c2 else c2)"
    have g: "recv_buffer c3 = recv_buffer c2" "ack_num c3 = ack_num c2"
      "chunk_data c3 = chunk_data c2" "direction c3 = direction c2"
      "peer_addr c3 = peer_addr c2"
      "state c3 = (if CHUNK_SIZE \<le> length (chunk_data c2) then COMPLETE else state c2)"
      by (simp_all add: c3_def update_state_def)
    have i3: "download_inv ps c3"
      using download_inv_cong [OF g(1-4), of ps] i2 by simp
    have "receive_data now k (ps ! nat (k - 1)) c =
            Inr (if CHUNK_SIZE \<le> length (chunk_data c2) then Some (chunk_hash c2) else None,
                 [(ackp, peer_addr c)], c3)"
      using True dir
      by (simp add: receive_data_def a c2_def [symmetric] f ackp pa is_chunk_complete_def c3_def)
    moreover from True s(3) have "k \<notin> fst ` set (recv_buffer c)" by simp
    ultimately show ?thesis
      using isack i3 s(2) pa st f g by auto
  qed
qed

lemma data_packet_sel [simp]:
  "pkt_seq_num (data_packet addr ps k) = k"
  "payload (data_packet addr ps k) = ps ! nat (k - 1)"
  by (simp_all add: data_packet_def)

lemma receive_all_append:
  "receive_all (xs @ ys) addr rt =
     (case receive_all xs addr rt of
        Inl e \<Rightarrow> Inl e
      | Inr (o1, rt1) \<Rightarrow>
          (case receive_all ys addr rt1 of
             Inl e \<Rightarrow> Inl e
           | Inr (o2, rt2) \<Rightarrow> Inr (o1 @ o2, rt2)))"
proof (induction xs arbitrary: rt)
  case Nil
  then show ?case by (simp split: sum.splits)
next
  case (Cons x xs)
  obtain t p where x: "x = (t, p)" by (cases x)
  show ?case
    by (simp add: x Cons.IH split: sum.splits prod.splits)
qed

lemma download_inv_short:
  assumes "download_inv ps c" "length (concat ps) < CHUNK_SIZE"
  shows "length (chunk_data c) < CHUNK_SIZE"
  using length_concat_take [of "nat (ack_num c)" ps] assms
  by (simp add: download_inv_chunk_data)

lemma data_arrivals_simps:
  "data_arrivals addr ps [] = []"
  "data_arrivals addr ps ((t, k) # arr) = (t, data_packet addr ps k) # data_arrivals addr ps arr"
  "data_arrivals addr ps (xs @ ys) = data_arrivals addr ps xs @ data_arrivals addr ps ys"
  by (simp_all add: data_arrivals_def)

lemma create_download_connection_fresh:
  "fst (create_download_connection t h addr rt) =
     (Connection_init t addr h DOWNLOAD)
       \<lparr>state := TRANSFER,
        timeout_interval := (case custom_timeout rt of
                               None \<Rightarrow> 3
                             | Some t \<Rightarrow> if t \<noteq> 0 then real_of_int t else 3)\<rparr>"
  by (simp add: create_download_connection_def set_custom_timeout_def update_state_def
        Connection_init_def Let_def split: option.splits)



lemma update_slot:
  "h \<notin> fst ` set xs \<Longrightarrow> AList.update h c' (xs @ (h, c) # ys) = xs @ (h, c') # ys"
  by (induction xs) auto

lemma update_fresh: "h \<notin> fst ` set xs \<Longrightarrow> AList.update h c xs = xs @ [(h, c)]"
  by (induction xs) auto

lemma find_slot:
  assumes "\<forall>e\<in>set xs \<union> set ys. \<not> P e"
  shows "find P (xs @ x # ys) = (if P x then Some x else None)"
proof -
  have "find P xs = None" "find P ys = None"
    using assms by (simp_all add: find_None_iff)
  moreover have "find P (as @ bs) = (case find P as of None \<Rightarrow> find P bs | Some a \<Rightarrow> Some a)"
    for as bs
    by (induction as) simp_all
  ultimately show ?thesis by simp
qed

lemma handle_data_packet_slot:
  assumes "download_connections rt = xs @ (h, c) # ys" "h \<notin> fst ` set xs"
    and "\<forall>e\<in>set xs \<union> set ys. \<not> (peer_addr (snd e) = addr \<and> state (snd e) = TRANSFER)"
    and "peer_addr c = addr"
  shows "handle_data_packet now pkt addr rt =
     (if state c = TRANSFER then
        (case receive_data now (pkt_seq_num pkt) (payload pkt) c of
           Inl e \<Rightarrow> Inl e
         | Inr (r, out, c') \<Rightarrow>
             Inr (r, out, rt\<lparr>download_connections := xs @ (h, c') # ys\<rparr>))
      else Inr (None, [], rt))"
proof -
  let ?P = "\<lambda>(h, conn). peer_addr conn = addr \<and> state conn = TRANSFER"
  have "\<forall>e\<in>set xs \<union> set ys. \<not> ?P e"
    using assms(3) by (auto simp: case_prod_beta)
  from find_slot [OF this, of "(h, c)"] assms(4)
  have f: "find ?P (download_connections rt)
             = (if state c = TRANSFER then Some (h, c) else None)"
    by (simp add: assms(1))
  show ?thesis
    unfolding handle_data_packet_def f
    by (simp add: assms(1) update_slot [OF assms(2)] split: sum.splits prod.splits)
qed

lemma receive_all_complete:
  assumes "download_connections rt = xs @ (h, c) # ys" "h \<notin> fst ` set xs"
    and "\<forall>e\<in>set xs \<union> set ys. \<not> (peer_addr (snd e) = addr \<and> state (snd e) = TRANSFER)"
    and "peer_addr c = addr" "state c \<noteq> TRANSFER"
  shows "receive_all arr addr rt = Inr ([], rt)"
proof (induction arr)
  case Nil
  then show ?case by simp
next
  case (Cons x arr)
  obtain t p where x: "x = (t, p)" by (cases x)
  have "handle_data_packet t p addr rt = Inr (None, [], rt)"
    using handle_data_packet_slot [OF assms(1-4), of t p] assms(5) by simp
  with Cons show ?case by (simp add: x)
qed

lemma run_transfer:
  assumes "download_inv ps c" "state c = TRANSFER" "peer_addr c = addr"
    and "download_connections rt = xs @ (h, c) # ys" "h \<notin> fst ` set xs"
    and "\<forall>e\<in>set xs \<union> set ys. \<not> (peer_addr (snd e) = addr \<and> state (snd e) = TRANSFER)"
    and "\<forall>k\<in>snd ` set arr. 1 \<le> k \<and> k \<le> int (length ps)"
    and "length ps < 2 ^ 32"
    and "length (concat (butlast ps)) < CHUNK_SIZE"
    and "length (concat ps) < CHUNK_SIZE
         \<or> \<not> {1..int (length ps)} \<subseteq> fst ` set (recv_buffer c) \<union> snd ` set arr"
  shows "\<exists>out c'.
           receive_all (data_arrivals addr ps arr) addr rt
             = Inr (out, rt\<lparr>download_connections := xs @ (h, c') # ys\<rparr>)
         \<and> length out = length arr \<and> (\<forall>e\<in>set out. is_ack_to addr e)
         \<and> download_inv ps c' \<and> state c' = TRANSFER \<and> peer_addr c' = addr
         \<and> fst ` set (recv_buffer c') = fst ` set (recv_buffer c) \<union> snd ` set arr"
  using assms(1-4,7,10)
proof (induction arr arbitrary: c rt)
  case Nil
  have e: "rt = rt\<lparr>download_connections := xs @ (h, c) # ys\<rparr>"
    using Nil.prems(4) by simp
  have "receive_all (data_arrivals addr ps []) addr rt
          = Inr ([], rt\<lparr>download_connections := xs @ (h, c) # ys\<rparr>)"
    using e by (simp add: data_arrivals_simps)
  with Nil.prems(1-3) show ?case
    by (intro exI [of _ "[]"] exI [of _ c]) simp
next
  case (Cons x arr)
  obtain t k where x: "x = (t, k)" by (cases x)
  from Cons.prems(5) have k: "1 \<le> k" "k \<le> int (length ps)"
    and rest: "\<forall>j\<in>snd ` set arr. 1 \<le> j \<and> j \<le> int (length ps)"
    by (simp_all add: x)
  from receive_data_step [OF Cons.prems(1) k assms(8), of t]
  obtain r ackp c1 where
    rd: "receive_data t k (ps ! nat (k - 1)) c = Inr (r, [(ackp, peer_addr c)], c1)"
    and ack: "is_ack_to (peer_addr c) (ackp, peer_addr c)"
    and inv1: "download_inv ps c1"
    and keys1: "fst ` set (recv_buffer c1) = insert k (fst ` set (recv_buffer c))"
    and pa1: "peer_addr c1 = peer_addr c"
    and st1: "state c1 = (if k \<notin> fst ` set (recv_buffer c) \<and> CHUNK_SIZE \<le> length (chunk_data c1)
                          then COMPLETE else state c)"
    by blast
  have ku: "fst ` set (recv_buffer c1) \<union> snd ` set arr
              = fst ` set (recv_buffer c) \<union> snd ` set (x # arr)"
    by (auto simp: keys1 x)
  have short: "length (chunk_data c1) < CHUNK_SIZE"
  proof (cases "length (concat ps) < CHUNK_SIZE")
    case True
    with inv1 show ?thesis by (rule download_inv_short)
  next
    case False
    with Cons.prems(6) have "\<not> {1..int (length ps)} \<subseteq> fst ` set (recv_buffer c) \<union> snd ` set (x # arr)"
      by simp
    then have "\<not> {1..int (length ps)} \<subseteq> fst ` set (recv_buffer c1)"
      unfolding ku [symmetric] by blast
    then have "ack_num c1 \<noteq> int (length ps)"
      by (simp add: download_inv_complete [OF inv1])
    from download_inv_incomplete_length [OF inv1 this assms(9)] show ?thesis .
  qed
  with st1 Cons.prems(2) have st1': "state c1 = TRANSFER" by simp
  let ?rt1 = "rt\<lparr>download_connections := xs @ (h, c1) # ys\<rparr>"
  have h1: "handle_data_packet t (data_packet addr ps k) addr rt = Inr (r, [(ackp, addr)], ?rt1)"
    using handle_data_packet_slot [OF Cons.prems(4) assms(5,6) Cons.prems(3),
        of t "data_packet addr ps k"]
      Cons.prems(2,3) rd by simp
  have q1: "length (concat ps) < CHUNK_SIZE
         \<or> \<not> {1..int (length ps)} \<subseteq> fst ` set (recv_buffer c1) \<union> snd ` set arr"
    using Cons.prems(6) unfolding ku .
  have dl1: "download_connections ?rt1 = xs @ (h, c1) # ys" by simp
  have pa1': "peer_addr c1 = addr" using pa1 Cons.prems(3) by simp
  from Cons.IH [OF inv1 st1' pa1' dl1 rest q1]
  obtain out c' where
    ra: "receive_all (data_arrivals addr ps arr) addr ?rt1
             = Inr (out, ?rt1\<lparr>download_connections := xs @ (h, c') # ys\<rparr>)"
    and props: "length out = length arr" "\<forall>e\<in>set out. is_ack_to addr e"
      "download_inv ps c'" "state c' = TRANSFER" "peer_addr c' = addr"
      "fst ` set (recv_buffer c') = fst ` set (recv_buffer c1) \<union> snd ` set arr"
    by blast
  have "receive_all (data_arrivals addr ps (x # arr)) addr rt
          = Inr ((ackp, addr) # out, rt\<lparr>download_connections := xs @ (h, c') # ys\<rparr>)"
    by (simp add: x data_arrivals_simps h1 ra)
  moreover have "is_ack_to addr (ackp, addr)" using ack Cons.prems(3) by simp
  ultimately show ?case
    using props ku by auto
qed



lemma delete_slot:
  "AList.delete h (xs @ (h, c) # ys) = AList.delete h xs @ AList.delete h ys"
  by (simp add: AList.delete_eq)

lemma create_download_connection_slot:
  assumes d: "distinct (map fst (download_connections rt0))"
    and o: "\<forall>(k, c)\<in>set (download_connections rt0).
              k \<noteq> h \<longrightarrow> \<not> (peer_addr c = addr \<and> state c = TRANSFER)"
  shows "\<exists>xs ys c0.
           snd (create_download_connection t h addr rt0)
             = rt0\<lparr>download_connections := xs @ (h, c0) # ys\<rparr>
         \<and> h \<notin> fst ` set xs
         \<and> (\<forall>e\<in>set xs \<union> set ys. \<not> (peer_addr (snd e) = addr \<and> state (snd e) = TRANSFER))
         \<and> AList.delete h xs @ AList.delete h ys = AList.delete h (download_connections rt0)
         \<and> download_inv ps c0 \<and> state c0 = TRANSFER \<and> peer_addr c0 = addr
         \<and> recv_buffer c0 = []"
proof -
  let ?dl = "download_connections rt0"
  let ?c0 = "fst (create_download_connection t h addr rt0)"
  have f: "recv_buffer ?c0 = recv_buffer (Connection_init t addr h DOWNLOAD)"
    "ack_num ?c0 = ack_num (Connection_init t addr h DOWNLOAD)"
    "chunk_data ?c0 = chunk_data (Connection_init t addr h DOWNLOAD)"
    "direction ?c0 = direction (Connection_init t addr h DOWNLOAD)"
    and g: "state ?c0 = TRANSFER" "peer_addr ?c0 = addr" "recv_buffer ?c0 = []"
    by (simp_all add: create_download_connection_fresh) (simp_all add: Connection_init_def)
  have inv: "download_inv ps ?c0"
    using download_inv_cong [OF f, of ps] download_inv_init [of ps t addr h] by simp
  have s: "snd (create_download_connection t h addr rt0)
              = rt0\<lparr>download_connections := AList.update h ?c0 ?dl\<rparr>"
    by (simp add: create_download_connection_def Let_def)
  have others: "\<not> (peer_addr (snd e) = addr \<and> state (snd e) = TRANSFER)"
    if "e \<in> set ?dl" "fst e \<noteq> h" for e
    using o that by (auto simp: case_prod_beta)
  have "\<exists>xs ys. AList.update h ?c0 ?dl = xs @ (h, ?c0) # ys \<and> h \<notin> fst ` set xs
          \<and> (\<forall>e\<in>set xs \<union> set ys. e \<in> set ?dl \<and> fst e \<noteq> h)
          \<and> AList.delete h xs @ AList.delete h ys = AList.delete h ?dl"
  proof (cases "h \<in> fst ` set ?dl")
    case False
    then have "AList.update h ?c0 ?dl = ?dl @ (h, ?c0) # []"
      by (simp add: update_fresh)
    moreover have "\<forall>e\<in>set ?dl \<union> set []. e \<in> set ?dl \<and> fst e \<noteq> h"
      using False by auto
    moreover have "AList.delete h ?dl @ AList.delete h [] = AList.delete h ?dl" by simp
    ultimately show ?thesis using False by blast
  next
    case True
    then have "\<exists>e\<in>set ?dl. fst e = h" by auto
    from split_list_first_prop [OF this]
    obtain xs x ys where sp: "?dl = xs @ x # ys" "fst x = h" "\<forall>y\<in>set xs. fst y \<noteq> h"
      by blast
    then have x: "x = (h, snd x)" by (cases x) simp
    have nx: "h \<notin> fst ` set xs" using sp(3) by auto
    have ny: "h \<notin> fst ` set ys"
      using d sp(1,2) by (auto simp: image_iff)
    have u: "AList.update h ?c0 ?dl = xs @ (h, ?c0) # ys"
      using update_slot [OF nx, of ?c0 "snd x" ys] x sp(1) by simp
    have m: "\<forall>e\<in>set xs \<union> set ys. e \<in> set ?dl \<and> fst e \<noteq> h"
      using sp(1) nx ny by (auto simp: image_iff)
    have "AList.delete h ?dl = AList.delete h (xs @ (h, snd x) # ys)"
      using x sp(1) by simp
    then have dd: "AList.delete h xs @ AList.delete h ys = AList.delete h ?dl"
      by (simp only: delete_slot)
    show ?thesis
      by (rule exI [of _ xs], rule exI [of _ ys]) (intro conjI u nx m dd)
  qed
  then obtain xs ys where a: "AList.update h ?c0 ?dl = xs @ (h, ?c0) # ys" "h \<notin> fst ` set xs"
    "\<forall>e\<in>set xs \<union> set ys. e \<in> set ?dl \<and> fst e \<noteq> h"
    "AList.delete h xs @ AList.delete h ys = AList.delete h ?dl"
    by blast
  from a(3) others
  have "\<forall>e\<in>set xs \<union> set ys. \<not> (peer_addr (snd e) = addr \<and> state (snd e) = TRANSFER)"
    by blast
  with s a(1,2,4) inv g show ?thesis
    by (intro exI [of _ xs] exI [of _ ys] exI [of _ ?c0]) simp
qed

lemma sequence_delivery_aux:
  assumes d: "distinct (map fst (download_connections rt0))"
    and o: "\<forall>(k, c)\<in>set (download_connections rt0).
              k \<noteq> h \<longrightarrow> \<not> (peer_addr c = addr \<and> state c = TRANSFER)"
    and n: "length ps < 2 ^ 32"
    and a3: "length (concat (butlast ps)) < CHUNK_SIZE"
    and cover: "insert x (snd ` set pre) = {1..int (length ps)}"
    and new: "x \<notin> snd ` set pre"
    and post: "snd ` set post \<subseteq> {1..int (length ps)}"
  shows "\<exists>out rt' c.
      receive_all (data_arrivals addr ps (pre @ (tx, x) # post)) addr
          (snd (create_download_connection t h addr rt0)) = Inr (out, rt')
    \<and> map_of (download_connections rt') h = Some c
    \<and> AList.delete h (download_connections rt') = AList.delete h (download_connections rt0)
    \<and> chunk_data c = concat ps \<and> ack_num c = int (length ps)
    \<and> state c = (if CHUNK_SIZE \<le> length (concat ps) then COMPLETE else TRANSFER)
    \<and> (\<forall>e\<in>set out. is_ack_to addr e)
    \<and> length out = length pre + 1 + (if CHUNK_SIZE \<le> length (concat ps) then 0 else length post)"
proof -
  let ?N = "int (length ps)"
  from create_download_connection_slot [OF d o, of t ps]
  obtain xs ys c0 where rt1: "snd (create_download_connection t h addr rt0)
                = rt0\<lparr>download_connections := xs @ (h, c0) # ys\<rparr>"
    and nx: "h \<notin> fst ` set xs"
    and oth: "\<forall>e\<in>set xs \<union> set ys. \<not> (peer_addr (snd e) = addr \<and> state (snd e) = TRANSFER)"
    and del: "AList.delete h xs @ AList.delete h ys = AList.delete h (download_connections rt0)"
    and c0: "download_inv ps c0" "state c0 = TRANSFER" "peer_addr c0 = addr" "recv_buffer c0 = []"
    by blast
  have fin: "map_of (download_connections (rt0\<lparr>download_connections := xs @ (h, c) # ys\<rparr>)) h = Some c
      \<and> AList.delete h (download_connections (rt0\<lparr>download_connections := xs @ (h, c) # ys\<rparr>))
          = AList.delete h (download_connections rt0)" for c
    using nx del by (simp add: delete_slot map_add_def map_of_eq_None_iff [THEN iffD2])
  let ?rt1 = "rt0\<lparr>download_connections := xs @ (h, c0) # ys\<rparr>"
  have dl1: "download_connections ?rt1 = xs @ (h, c0) # ys" by simp
  have "x \<in> insert x (snd ` set pre)" by simp
  then have "x \<in> {1..?N}" unfolding cover .
  then have xr: "1 \<le> x" "x \<le> ?N" by simp_all
  have prer: "\<forall>k\<in>snd ` set pre. 1 \<le> k \<and> k \<le> ?N"
  proof
    fix k assume "k \<in> snd ` set pre"
    then have "k \<in> insert x (snd ` set pre)" by simp
    then have "k \<in> {1..?N}" unfolding cover .
    then show "1 \<le> k \<and> k \<le> ?N" by simp
  qed
  from post have postr: "\<forall>k\<in>snd ` set post. 1 \<le> k \<and> k \<le> ?N" by auto
  have q1: "length (concat ps) < CHUNK_SIZE
         \<or> \<not> {1..?N} \<subseteq> fst ` set (recv_buffer c0) \<union> snd ` set pre"
    using new xr by (auto simp: c0(4))
  from run_transfer [OF c0(1-3) dl1 nx oth prer n a3 q1]
  obtain out1 c1 where
    r1: "receive_all (data_arrivals addr ps pre) addr ?rt1
             = Inr (out1, ?rt1\<lparr>download_connections := xs @ (h, c1) # ys\<rparr>)"
    and p1: "length out1 = length pre" "\<forall>e\<in>set out1. is_ack_to addr e"
      "download_inv ps c1" "state c1 = TRANSFER" "peer_addr c1 = addr"
      "fst ` set (recv_buffer c1) = fst ` set (recv_buffer c0) \<union> snd ` set pre"
    by blast
  let ?rt2 = "rt0\<lparr>download_connections := xs @ (h, c1) # ys\<rparr>"
  have r1': "receive_all (data_arrivals addr ps pre) addr ?rt1 = Inr (out1, ?rt2)"
    using r1 by simp
  have k1: "fst ` set (recv_buffer c1) = snd ` set pre" using p1(6) c0(4) by simp
  from receive_data_step [OF p1(3) xr n, of tx]
  obtain r ackp c2 where
    rd: "receive_data tx x (ps ! nat (x - 1)) c1 = Inr (r, [(ackp, peer_addr c1)], c2)"
    and ack: "is_ack_to (peer_addr c1) (ackp, peer_addr c1)"
    and inv2: "download_inv ps c2"
    and keys2: "fst ` set (recv_buffer c2) = insert x (fst ` set (recv_buffer c1))"
    and pa2: "peer_addr c2 = peer_addr c1"
    and st2: "state c2 = (if x \<notin> fst ` set (recv_buffer c1) \<and> CHUNK_SIZE \<le> length (chunk_data c2)
                          then COMPLETE else state c1)"
    by blast
  have k2: "fst ` set (recv_buffer c2) = {1..?N}" using keys2 k1 cover by simp
  then have a2: "ack_num c2 = ?N" by (simp add: download_inv_complete [OF inv2])
  have cd2: "chunk_data c2 = concat ps"
    using download_inv_chunk_data [OF inv2] a2 by simp
  have st2': "state c2 = (if CHUNK_SIZE \<le> length (concat ps) then COMPLETE else TRANSFER)"
    using st2 new k1 cd2 p1(4) by simp
  let ?rt3 = "rt0\<lparr>download_connections := xs @ (h, c2) # ys\<rparr>"
  have dl2: "download_connections ?rt2 = xs @ (h, c1) # ys" by simp
  have h2: "handle_data_packet tx (data_packet addr ps x) addr ?rt2 = Inr (r, [(ackp, addr)], ?rt3)"
    using handle_data_packet_slot [OF dl2 nx oth p1(5), of tx "data_packet addr ps x"] p1(4,5) rd
    by simp
  have ack': "is_ack_to addr (ackp, addr)" using ack p1(5) by simp
  have dl3: "download_connections ?rt3 = xs @ (h, c2) # ys" by simp
  have pa2': "peer_addr c2 = addr" using pa2 p1(5) by simp
  show ?thesis
  proof (cases "CHUNK_SIZE \<le> length (concat ps)")
    case True
    with st2' have "state c2 \<noteq> TRANSFER" by simp
    from receive_all_complete [OF dl3 nx oth pa2' this, of "data_arrivals addr ps post"]
    have r3: "receive_all (data_arrivals addr ps post) addr ?rt3 = Inr ([], ?rt3)" .
    have "receive_all (data_arrivals addr ps (pre @ (tx, x) # post)) addr ?rt1
            = Inr (out1 @ [(ackp, addr)], ?rt3)"
      by (simp add: data_arrivals_simps receive_all_append r1' h2 r3)
    with True fin [of c2] cd2 a2 st2' p1(1,2) ack' show ?thesis
      unfolding rt1 by (intro exI [of _ "out1 @ [(ackp, addr)]"] exI [of _ ?rt3] exI [of _ c2]) simp
  next
    case False
    then have q3: "length (concat ps) < CHUNK_SIZE
         \<or> \<not> {1..?N} \<subseteq> fst ` set (recv_buffer c2) \<union> snd ` set post"
      by simp
    from False st2' have st3: "state c2 = TRANSFER" by simp
    from run_transfer [OF inv2 st3 pa2' dl3 nx oth postr n a3 q3]
    obtain out3 c3 where
      r3: "receive_all (data_arrivals addr ps post) addr ?rt3
             = Inr (out3, ?rt3\<lparr>download_connections := xs @ (h, c3) # ys\<rparr>)"
      and p3: "length out3 = length post" "\<forall>e\<in>set out3. is_ack_to addr e"
        "download_inv ps c3" "state c3 = TRANSFER" "peer_addr c3 = addr"
        "fst ` set (recv_buffer c3) = fst ` set (recv_buffer c2) \<union> snd ` set post"
      by blast
    let ?rt4 = "rt0\<lparr>download_connections := xs @ (h, c3) # ys\<rparr>"
    have r3': "receive_all (data_arrivals addr ps post) addr ?rt3 = Inr (out3, ?rt4)"
      using r3 by simp
    have "fst ` set (recv_buffer c3) = {1..?N}" using p3(6) k2 post by auto
    then have a3': "ack_num c3 = ?N" by (simp add: download_inv_complete [OF p3(3)])
    have cd3: "chunk_data c3 = concat ps"
      using download_inv_chunk_data [OF p3(3)] a3' by simp
    have "receive_all (data_arrivals addr ps (pre @ (tx, x) # post)) addr ?rt1
            = Inr (out1 @ (ackp, addr) # out3, ?rt4)"
      by (simp add: data_arrivals_simps receive_all_append r1' h2 r3')
    then show ?thesis
      using False fin [of c3] cd3 a3' p3(1,2,4) p1(1,2) ack'
      unfolding rt1
      by (intro exI [of _ "out1 @ (ackp, addr) # out3"] exI [of _ ?rt4] exI [of _ c3]) auto
  qed
qed

section \<open>Sequence delivery\<close>


text \<open>
  C5 (as the code has it). A download connection is created in a manager whose
  \<open>download_connections\<close> have distinct keys, as the keys of a dict have, and in which
  no other download connection is in state \<open>TRANSFER\<close> with the same peer:
  \<open>handle_data_packet\<close> finds the connection by the sender's address, and takes the
  first one in \<open>TRANSFER\<close>. The payloads \<open>ps\<close> of the chunk then arrive from that
  peer as DATA packets, in any order and with any duplicates: \<open>pre\<close>, then the packet
  \<open>x\<close> that was still missing, then \<open>post\<close>. The packets before the last one do not
  fill \<open>CHUNK_SIZE\<close>, and the sequence numbers fit 32 bits.
  Then the connection ends with \<open>chunk_data\<close> equal to the payloads concatenated in
  sequence order and \<open>ack_num = N\<close>, the other connections of the manager are as they
  were, and every datagram sent is an ACK to the peer.
  One ACK is sent for each DATA packet up to and including \<open>x\<close>. For a chunk shorter
  than \<open>CHUNK_SIZE\<close> the connection stays in \<open>TRANSFER\<close> and each packet of \<open>post\<close>
  is acknowledged too; otherwise the connection is \<open>COMPLETE\<close> after \<open>x\<close>, and
  \<open>handle_data_packet\<close>, which looks for a connection in \<open>TRANSFER\<close> only, drops the
  packets of \<open>post\<close> without an ACK.
\<close>

theorem sequence_delivery:
  assumes "distinct (map fst (download_connections rt0))"
    and "\<forall>(k, c)\<in>set (download_connections rt0).
            k \<noteq> h \<longrightarrow> \<not> (peer_addr c = addr \<and> state c = TRANSFER)"
    and "length ps < 2 ^ 32"
    and "length (concat (butlast ps)) < CHUNK_SIZE"
    and "insert x (snd ` set pre) = {1..int (length ps)}"
    and "x \<notin> snd ` set pre"
    and "snd ` set post \<subseteq> {1..int (length ps)}"
  shows "\<exists>out rt' c.
      receive_all (data_arrivals addr ps (pre @ (tx, x) # post)) addr
          (snd (create_download_connection t h addr rt0)) = Inr (out, rt')
    \<and> map_of (download_connections rt') h = Some c
    \<and> AList.delete h (download_connections rt') = AList.delete h (download_connections rt0)
    \<and> chunk_data c = concat ps \<and> ack_num c = int (length ps)
    \<and> state c = (if CHUNK_SIZE \<le> length (concat ps) then COMPLETE else TRANSFER)
    \<and> (\<forall>e\<in>set out. is_ack_to addr e)
    \<and> length out = length pre + 1 + (if CHUNK_SIZE \<le> length (concat ps) then 0 else length post)"
  using assms by (rule sequence_delivery_aux)

theorem sequence_delivery_witness:
  "\<exists>out rt' c.
      receive_all
        (data_arrivals (''10.0.0.1'', 8000) [[1, 2], [3]] ([(1, 2)] @ (2, 1) # [(3, 2), (4, 1)]))
        (''10.0.0.1'', 8000)
        (snd (create_download_connection 0 ''ab'' (''10.0.0.1'', 8000)
           (snd (create_download_connection 0 ''cd'' (''10.0.0.3'', 8001)
              (ReliableTransfer_init \<lparr>has_chunks = Map.empty, max_conn = 4, timeout = 0\<rparr>)))))
        = Inr (out, rt')
    \<and> map_of (download_connections rt') ''ab'' = Some c
    \<and> chunk_data c = [1, 2, 3] \<and> ack_num c = 2 \<and> state c = TRANSFER
    \<and> length out = 4"
proof -
  let ?rt0 = "snd (create_download_connection 0 ''cd'' (''10.0.0.3'', 8001)
              (ReliableTransfer_init \<lparr>has_chunks = Map.empty, max_conn = 4, timeout = 0\<rparr>))"
  have dl: "download_connections ?rt0
      = [(''cd'', fst (create_download_connection 0 ''cd'' (''10.0.0.3'', 8001)
              (ReliableTransfer_init \<lparr>has_chunks = Map.empty, max_conn = 4, timeout = 0\<rparr>)))]"
    by (simp add: create_download_connection_def Let_def ReliableTransfer_init_def)
  have 0: "distinct (map fst (download_connections ?rt0))"
    by (simp add: dl)
  have 1: "\<forall>(k, c)\<in>set (download_connections ?rt0).
            k \<noteq> ''ab'' \<longrightarrow> \<not> (peer_addr c = (''10.0.0.1'', 8000) \<and> state c = TRANSFER)"
    by (simp add: dl create_download_connection_fresh Connection_init_def)
  have 2: "length [[1, 2], [3 :: byte]] < 2 ^ 32" by simp
  have 3: "length (concat (butlast [[1, 2], [3 :: byte]])) < CHUNK_SIZE"
    by (simp add: CHUNK_SIZE_def)
  have 4: "insert 1 (snd ` set [(1 :: real, 2 :: int)]) = {1..int (length [[1, 2], [3 :: byte]])}"
    by auto
  have 5: "(1 :: int) \<notin> snd ` set [(1 :: real, 2 :: int)]" by simp
  have 6: "snd ` set [(3 :: real, 2 :: int), (4, 1)] \<subseteq> {1..int (length [[1, 2], [3 :: byte]])}"
    by simp
  from sequence_delivery [OF 0 1 2 3 4 5 6, of 2 0]
  show ?thesis by (auto simp: CHUNK_SIZE_def)
qed

lemma split_chunk_full:
  "map snd (split_chunk (replicate 524288 0))
     = replicate 377 (replicate 1388 0) @ [replicate 1012 0]"
proof -
  have u: "[0..<378] = [0..<377] @ [377]"
    using upt_Suc_append [of 0 377] by simp
  have "map (\<lambda>s. replicate (min (s * 1388 + 1388) 524288 - s * 1388) (0::byte)) [0..<377]
      = map (\<lambda>s. replicate 1388 0) [0..<377]"
    by (rule map_cong [OF refl]) (simp add: min_def)
  then have "map (\<lambda>s. replicate (min (s * 1388 + 1388) 524288 - s * 1388) (0::byte)) [0..<377]
      = replicate 377 (replicate 1388 0)"
    by (simp add: map_replicate_const)
  then show ?thesis
    by (simp add: split_chunk_def MAX_PAYLOAD_SIZE_def BUF_SIZE_def HEADER_LEN_def u comp_def
          Let_def)
qed

lemma second_connection_same_peer:
  "map_option chunk_data
     (map_of (download_connections (snd (projr
        (receive_all (data_arrivals (''10.0.0.1'', 8000) [[1, 2], [3]] [(1, 1), (2, 2)])
           (''10.0.0.1'', 8000)
           (snd (create_download_connection 0 ''ab'' (''10.0.0.1'', 8000)
              (snd (create_download_connection 0 ''cd'' (''10.0.0.1'', 8000)
                 (ReliableTransfer_init
                    \<lparr>has_chunks = Map.empty, max_conn = 4, timeout = 0\<rparr>))))))))) ''ab'')
     = Some []
   \<and> map_option ack_num
     (map_of (download_connections (snd (projr
        (receive_all (data_arrivals (''10.0.0.1'', 8000) [[1, 2], [3]] [(1, 1), (2, 2)])
           (''10.0.0.1'', 8000)
           (snd (create_download_connection 0 ''ab'' (''10.0.0.1'', 8000)
              (snd (create_download_connection 0 ''cd'' (''10.0.0.1'', 8000)
                 (ReliableTransfer_init
                    \<lparr>has_chunks = Map.empty, max_conn = 4, timeout = 0\<rparr>))))))))) ''ab'')
     = Some 0
   \<and> map_option chunk_data
     (map_of (download_connections (snd (projr
        (receive_all (data_arrivals (''10.0.0.1'', 8000) [[1, 2], [3]] [(1, 1), (2, 2)])
           (''10.0.0.1'', 8000)
           (snd (create_download_connection 0 ''ab'' (''10.0.0.1'', 8000)
              (snd (create_download_connection 0 ''cd'' (''10.0.0.1'', 8000)
                 (ReliableTransfer_init
                    \<lparr>has_chunks = Map.empty, max_conn = 4, timeout = 0\<rparr>))))))))) ''cd'')
     = Some [1, 2, 3]"
  by (simp add: data_arrivals_def data_packet_def create_download_connection_def Let_def
        ReliableTransfer_init_def set_custom_timeout_def update_state_def Connection_init_def
        handle_data_packet_def receive_data_def add_received_data_def drain.simps
        update_timeout_on_ack_def is_chunk_complete_def CHUNK_SIZE_def
        build_ack_packet_def build_header_def htons_def htonl_def byteswap_def
        struct_pack_def le_bytes_2 le_bytes_4 HEADER_LEN_def ACK_def)


text \<open>
  The 378 packets of a chunk of 524288 bytes arrive in order, then packet 1 arrives
  again: 379 DATA packets are received and 378 ACKs are sent. And when a manager has
  two download connections in \<open>TRANSFER\<close> with the same peer, the two packets of the
  later connection's chunk are delivered to the earlier connection: the later one ends
  with empty \<open>chunk_data\<close> and \<open>ack_num = 0\<close>.
\<close>

theorem sequence_delivery_counterexample:
  "map_sum id (length \<circ> fst)
     (receive_all
        (data_arrivals (''10.0.0.1'', 8000) (map snd (split_chunk (replicate 524288 0)))
           (map (Pair 0) [1..377] @ (0, 378) # [(0, 1)]))
        (''10.0.0.1'', 8000)
        (snd (create_download_connection 0 ''ab'' (''10.0.0.1'', 8000)
           (ReliableTransfer_init \<lparr>has_chunks = Map.empty, max_conn = 4, timeout = 0\<rparr>))))
     = Inr 378
   \<and> length (data_arrivals (''10.0.0.1'', 8000) (map snd (split_chunk (replicate 524288 0)))
           (map (Pair 0) [1..377] @ (0, 378) # [(0, 1)])) = 379
   \<and> map_option chunk_data
     (map_of (download_connections (snd (projr
        (receive_all (data_arrivals (''10.0.0.1'', 8000) [[1, 2], [3]] [(1, 1), (2, 2)])
           (''10.0.0.1'', 8000)
           (snd (create_download_connection 0 ''ab'' (''10.0.0.1'', 8000)
              (snd (create_download_connection 0 ''cd'' (''10.0.0.1'', 8000)
                 (ReliableTransfer_init
                    \<lparr>has_chunks = Map.empty, max_conn = 4, timeout = 0\<rparr>))))))))) ''ab'')
     = Some []
   \<and> map_option ack_num
     (map_of (download_connections (snd (projr
        (receive_all (data_arrivals (''10.0.0.1'', 8000) [[1, 2], [3]] [(1, 1), (2, 2)])
           (''10.0.0.1'', 8000)
           (snd (create_download_connection 0 ''ab'' (''10.0.0.1'', 8000)
              (snd (create_download_connection 0 ''cd'' (''10.0.0.1'', 8000)
                 (ReliableTransfer_init
                    \<lparr>has_chunks = Map.empty, max_conn = 4, timeout = 0\<rparr>))))))))) ''ab'')
     = Some 0
   \<and> map_option chunk_data
     (map_of (download_connections (snd (projr
        (receive_all (data_arrivals (''10.0.0.1'', 8000) [[1, 2], [3]] [(1, 1), (2, 2)])
           (''10.0.0.1'', 8000)
           (snd (create_download_connection 0 ''ab'' (''10.0.0.1'', 8000)
              (snd (create_download_connection 0 ''cd'' (''10.0.0.1'', 8000)
                 (ReliableTransfer_init
                    \<lparr>has_chunks = Map.empty, max_conn = 4, timeout = 0\<rparr>))))))))) ''cd'')
     = Some [1, 2, 3]"
proof -
  let ?ps = "replicate 377 (replicate 1388 (0::byte)) @ [replicate 1012 0]"
  let ?rt0 = "ReliableTransfer_init \<lparr>has_chunks = Map.empty, max_conn = 4, timeout = 0\<rparr>"
  have dl: "download_connections ?rt0 = []"
    by (simp add: ReliableTransfer_init_def)
  have 0: "distinct (map fst (download_connections ?rt0))"
    by (simp add: dl)
  have 1: "\<forall>(k, c)\<in>set (download_connections ?rt0).
            k \<noteq> ''ab'' \<longrightarrow> \<not> (peer_addr c = (''10.0.0.1'', 8000) \<and> state c = TRANSFER)"
    by (simp add: dl)
  have 2: "length ?ps < 2 ^ 32" by simp
  have 3: "length (concat (butlast ?ps)) < CHUNK_SIZE"
    by (simp add: CHUNK_SIZE_def length_concat_replicate)
  have s: "snd ` set (map (Pair (0::real)) [1..377]) = {1..377::int}"
    by (auto simp: image_iff)
  have 4: "insert 378 (snd ` set (map (Pair (0::real)) [1..377])) = {1..int (length ?ps)}"
    unfolding s by auto
  have 5: "(378 :: int) \<notin> snd ` set (map (Pair (0::real)) [1..377])"
    unfolding s by simp
  have 6: "snd ` set [(0 :: real, 1 :: int)] \<subseteq> {1..int (length ?ps)}"
    by simp
  have t: "CHUNK_SIZE \<le> length (concat ?ps)"
    by (simp add: CHUNK_SIZE_def length_concat_replicate)
  from sequence_delivery_aux [OF 0 1 2 3 4 5 6, of 0 0] t
  obtain out rt' where
    "receive_all (data_arrivals (''10.0.0.1'', 8000) ?ps
           (map (Pair 0) [1..377] @ (0, 378) # [(0, 1)]))
        (''10.0.0.1'', 8000)
        (snd (create_download_connection 0 ''ab'' (''10.0.0.1'', 8000) ?rt0))
      = Inr (out, rt')"
    and "length out = 378"
    by auto
  then have late: "map_sum id (length \<circ> fst)
         (receive_all
            (data_arrivals (''10.0.0.1'', 8000) (map snd (split_chunk (replicate 524288 0)))
               (map (Pair 0) [1..377] @ (0, 378) # [(0, 1)]))
            (''10.0.0.1'', 8000)
            (snd (create_download_connection 0 ''ab'' (''10.0.0.1'', 8000)
               (ReliableTransfer_init \<lparr>has_chunks = Map.empty, max_conn = 4, timeout = 0\<rparr>))))
         = Inr 378
       \<and> length (data_arrivals (''10.0.0.1'', 8000) (map snd (split_chunk (replicate 524288 0)))
               (map (Pair 0) [1..377] @ (0, 378) # [(0, 1)])) = 379"
    by (simp add: split_chunk_full data_arrivals_def)
  from late second_connection_same_peer show ?thesis by blast
qed

section \<open>Timeouts\<close>




section \<open>Handshake\<close>









section \<open>Errors of the codec\<close>

lemma build_header_not_ValueError: "build_header t len sq ak \<noteq> Inl ValueError"
  by (simp add: build_header_def htons_def htonl_def)

lemma build_data_packet_ValueError:
  "build_data_packet sq data = Inl ValueError \<longleftrightarrow> 1388 < length data"
  using build_header_not_ValueError [of DATA "HEADER_LEN + length data" sq 0]
  by (auto simp: build_data_packet_def MAX_PAYLOAD_SIZE_def BUF_SIZE_def HEADER_LEN_def
        split: sum.splits)

lemma build_data_packet_fails:
  assumes "0 \<le> sq" "sq < 2 ^ 32"
  shows "(\<exists>e. build_data_packet sq data = Inl e) \<longleftrightarrow> 1388 < length data"
proof (cases "1388 < length data")
  case True
  then have "build_data_packet sq data = Inl ValueError"
    by (simp only: build_data_packet_ValueError)
  with True show ?thesis by blast
next
  case False
  then have "HEADER_LEN + length data \<le> 65535" by (simp add: HEADER_LEN_def)
  from build_header_ok [OF this assms, of 0 DATA] obtain h
    where "build_header DATA (HEADER_LEN + length data) sq 0 = Inr h" by auto
  with False show ?thesis
    by (simp add: build_data_packet_def MAX_PAYLOAD_SIZE_def BUF_SIZE_def HEADER_LEN_def)
qed

text \<open>
  C7 (as the code has it). \<open>build_data_packet\<close> raises \<open>ValueError\<close> exactly when
  the payload exceeds 1388 bytes, and for a 32-bit sequence number it raises nothing
  else. \<open>parse_packet\<close> raises \<open>ValueError\<close> when the datagram is shorter than the
  12-byte header or when the declared \<open>pkt_len\<close> (bytes 2 and 3, big-endian) differs
  from the datagram length, and accepts every other datagram whatever its type and
  payload. A WHOHAS or IHAVE payload whose length is not a multiple of 20 is rejected
  by \<open>extract_chunk_hashes\<close> with \<open>ValueError\<close>. A GET whose payload is not exactly
  20 bytes raises nothing: \<open>handle_get_request\<close> returns \<open>None\<close> and leaves the
  manager unchanged.
\<close>

theorem codec_errors:
  "(build_data_packet sq data = Inl ValueError \<longleftrightarrow> 1388 < length data)
   \<and> (0 \<le> sq \<and> sq < 2 ^ 32 \<longrightarrow>
        ((\<exists>e. build_data_packet sq data = Inl e) \<longleftrightarrow> 1388 < length data))
   \<and> (length d < 12 \<longrightarrow> parse_packet d a = Inl ValueError)
   \<and> (12 \<le> length d \<and> 256 * unat (d ! 2) + unat (d ! 3) \<noteq> length d \<longrightarrow>
        parse_packet d a = Inl ValueError)
   \<and> (12 \<le> length d \<and> 256 * unat (d ! 2) + unat (d ! 3) = length d \<longrightarrow>
        (\<exists>p. parse_packet d a = Inr p \<and> pkt_type p = unat (d ! 0)
           \<and> payload p = (if unat (d ! 1) < length d then drop (unat (d ! 1)) d else [])))
   \<and> (length pl mod 20 \<noteq> 0 \<longrightarrow> extract_chunk_hashes pl = Inl ValueError)
   \<and> (length (payload pkt) \<noteq> 20 \<longrightarrow> handle_get_request now pkt addr hm = (None, hm))"
proof (intro conjI impI)
  show "build_data_packet sq data = Inl ValueError \<longleftrightarrow> 1388 < length data"
    by (rule build_data_packet_ValueError)
  show "(\<exists>e. build_data_packet sq data = Inl e) \<longleftrightarrow> 1388 < length data"
    if "0 \<le> sq \<and> sq < 2 ^ 32"
    using that build_data_packet_fails [of sq data] by simp
  show "parse_packet d a = Inl ValueError" if "length d < 12"
    using that by (rule parse_packet_short)
  show "parse_packet d a = Inl ValueError"
    if "12 \<le> length d \<and> 256 * unat (d ! 2) + unat (d ! 3) \<noteq> length d"
  proof -
    from that have "\<not> length d < 12" by simp
    from parse_packet_long [OF this, of a] that show ?thesis by auto
  qed
  show "\<exists>p. parse_packet d a = Inr p \<and> pkt_type p = unat (d ! 0)
           \<and> payload p = (if unat (d ! 1) < length d then drop (unat (d ! 1)) d else [])"
    if "12 \<le> length d \<and> 256 * unat (d ! 2) + unat (d ! 3) = length d"
  proof -
    from that have "\<not> length d < 12" by simp
    from parse_packet_long [OF this, of a] that show ?thesis by auto
  qed
  show "extract_chunk_hashes pl = Inl ValueError" if "length pl mod 20 \<noteq> 0"
    using that by (simp add: extract_chunk_hashes_def)
  show "handle_get_request now pkt addr hm = (None, hm)" if "length (payload pkt) \<noteq> 20"
    using that by (simp add: handle_get_request_def)
qed

theorem codec_errors_witness:
  "build_data_packet 1 (replicate 1389 0) = Inl ValueError
   \<and> parse_packet [2, 12, 0] None = Inl ValueError
   \<and> parse_packet [2, 12, 0, 13, 0, 0, 0, 0, 0, 0, 0, 0] None = Inl ValueError
   \<and> (\<exists>p. parse_packet [2, 12, 0, 13, 0, 0, 0, 0, 0, 0, 0, 0, 7] None = Inr p
         \<and> pkt_type p = 2 \<and> payload p = [7])
   \<and> extract_chunk_hashes (replicate 21 0) = Inl ValueError
   \<and> handle_get_request 0
        \<lparr> pkt_type = GET, header_len = 12, pkt_len = 13, pkt_seq_num = 0, pkt_ack_num = 0,
          payload = [7], from_addr = None \<rparr>
        (''10.0.0.2'', 9000)
        (HandshakeManager_init \<lparr>has_chunks = Map.empty, max_conn = 1, timeout = 0\<rparr>)
      = (None, HandshakeManager_init \<lparr>has_chunks = Map.empty, max_conn = 1, timeout = 0\<rparr>)"
  using codec_errors [where sq = 1 and data = "replicate 1389 0" and d = "[2, 12, 0]"
          and a = None and pl = "replicate 21 0" and now = 0 and addr = "(''10.0.0.2'', 9000)"
          and pkt = "\<lparr> pkt_type = GET, header_len = 12, pkt_len = 13, pkt_seq_num = 0,
                       pkt_ack_num = 0, payload = [7], from_addr = None \<rparr>"
          and hm = "HandshakeManager_init \<lparr>has_chunks = Map.empty, max_conn = 1, timeout = 0\<rparr>"]
        codec_errors [where sq = 1 and data = "[]"
          and d = "[2, 12, 0, 13, 0, 0, 0, 0, 0, 0, 0, 0]"
          and a = None and pl = "[]" and now = 0 and addr = "(''10.0.0.2'', 9000)"
          and pkt = "\<lparr> pkt_type = GET, header_len = 12, pkt_len = 13, pkt_seq_num = 0,
                       pkt_ack_num = 0, payload = [7], from_addr = None \<rparr>"
          and hm = "HandshakeManager_init \<lparr>has_chunks = Map.empty, max_conn = 1, timeout = 0\<rparr>"]
        codec_errors [where sq = 1 and data = "[]"
          and d = "[2, 12, 0, 13, 0, 0, 0, 0, 0, 0, 0, 0, 7]"
          and a = None and pl = "[]" and now = 0 and addr = "(''10.0.0.2'', 9000)"
          and pkt = "\<lparr> pkt_type = GET, header_len = 12, pkt_len = 13, pkt_seq_num = 0,
                       pkt_ack_num = 0, payload = [7], from_addr = None \<rparr>"
          and hm = "HandshakeManager_init \<lparr>has_chunks = Map.empty, max_conn = 1, timeout = 0\<rparr>"]
  by simp

text \<open>
  A 12-byte GET datagram, with an empty payload, is decoded without error.
\<close>

theorem codec_errors_counterexample:
  "parse_packet [2, 12, 0, 12, 0, 0, 0, 0, 0, 0, 0, 0] None =
     Inr \<lparr> pkt_type = GET, header_len = 12, pkt_len = 12, pkt_seq_num = 0, pkt_ack_num = 0,
           payload = [], from_addr = None \<rparr>"
proof -
  have b: "build_header GET HEADER_LEN 0 0 = Inr [2, 12, 0, 12, 0, 0, 0, 0, 0, 0, 0, 0]"
    by (simp add: build_header_def htons_def htonl_def byteswap_def
        struct_pack_def le_bytes_2 le_bytes_4 HEADER_LEN_def GET_def)
  have "parse_packet ([2, 12, 0, 12, 0, 0, 0, 0, 0, 0, 0, 0] @ []) None =
         Inr \<lparr> pkt_type = GET, header_len = HEADER_LEN, pkt_len = HEADER_LEN, pkt_seq_num = 0,
               pkt_ack_num = 0, payload = [], from_addr = None \<rparr>"
    by (rule parse_built [OF b]) (simp_all add: GET_def)
  then show ?thesis by (simp add: HEADER_LEN_def)
qed

section \<open>Uploads: three runs of the sender\<close>


lemma upt_small: "[0..<2] = [0, 1]" "[0..<3] = [0, 1, 2]"
  by (simp_all add: numeral_2_eq_2 numeral_3_eq_3)

lemma split_chunk_1389:
  "split_chunk (replicate 1389 0) = [(1, replicate 1388 0), (2, replicate 1 0)]"
  by (simp add: split_chunk_def MAX_PAYLOAD_SIZE_def BUF_SIZE_def HEADER_LEN_def upt_small)

lemma split_chunk_2777:
  "split_chunk (replicate 2777 0)
     = [(1, replicate 1388 0), (2, replicate 1388 0), (3, replicate 1 0)]"
  by (simp add: split_chunk_def MAX_PAYLOAD_SIZE_def BUF_SIZE_def HEADER_LEN_def upt_small)

lemma build_data_full:
  "build_data_packet 1 (replicate 1388 0)
     = Inr ([3, 12, 5, 120, 0, 0, 0, 1, 0, 0, 0, 0] @ replicate 1388 0)"
  "build_data_packet 2 (replicate 1388 0)
     = Inr ([3, 12, 5, 120, 0, 0, 0, 2, 0, 0, 0, 0] @ replicate 1388 0)"
  by (simp_all add: build_data_packet_def build_header_def htons_def htonl_def byteswap_def
        struct_pack_def le_bytes_2 le_bytes_4 HEADER_LEN_def MAX_PAYLOAD_SIZE_def BUF_SIZE_def
        DATA_def)

lemmas upload_eval =
  ReliableTransfer_init_def create_upload_connection_def set_custom_timeout_def
  Connection_init_def update_state_def add_to_send_buffer_def Let_def
  start_data_upload_def send_data_packets_def can_send_more_def is_upload_def
  get_send_window_def py_int_def send_loop.simps
  handle_ack_packet_def receive_ack_def handle_ack_def update_cwnd_on_ack_def
  update_cwnd_on_loss_def should_fast_retransmit_def trigger_fast_retransmit_def

text \<open>
  C1 (the code at a failing input). A chunk of 1389 bytes is split into two packets.
  After the upload has started and the ACK for packet 1 has arrived, the connection is
  in state \<open>COMPLETE\<close> with \<open>ack_num = 1\<close>, and packet 2 was never sent:
  \<open>handle_ack\<close> has removed the acknowledged packet from \<open>send_buffer\<close>, and
  \<open>handle_ack_packet\<close> compares \<open>ack_num\<close> with the length of what is left.
\<close>

theorem upload_complete_at_half:
  "length (split_chunk (replicate 1389 0)) = 2
   \<and> (\<exists>rt c.
        upload_run [(0, StartUpload (''10.0.0.2'', 9000) ''c0''),
                    (1, AckFrom (''10.0.0.2'', 9000) 1)]
          (ReliableTransfer_init
             \<lparr>has_chunks = [''c0'' \<mapsto> replicate 1389 0], max_conn = 4, timeout = 0\<rparr>)
        = Inr ([([3, 12, 5, 120, 0, 0, 0, 1, 0, 0, 0, 0] @ replicate 1388 0,
                 (''10.0.0.2'', 9000))], rt)
      \<and> upload_connections rt = [(((''10.0.0.2'', 9000), ''c0''), c)]
      \<and> state c = COMPLETE \<and> ack_num c = 1 \<and> seq_num c = 1 \<and> packets_sent c = 1)"
  by (simp add: upload_eval split_chunk_1389 build_data_full)

text \<open>
  C2 (the code at a failing input). A chunk of 2777 bytes is split into three packets.
  After the ACK for packet 1 the window is 2 and \<open>min(N, ack_num + W) = 3\<close>, but only
  packet 2 is sent and \<open>seq_num\<close> stays at 2: \<open>send_data_packets\<close> bounds the
  sequence numbers by the length of the pruned \<open>send_buffer\<close>.
\<close>

theorem sender_skips_packets:
  "length (split_chunk (replicate 2777 0)) = 3
   \<and> (\<exists>rt c.
        upload_run [(0, StartUpload (''10.0.0.2'', 9000) ''c0''),
                    (1, AckFrom (''10.0.0.2'', 9000) 1)]
          (ReliableTransfer_init
             \<lparr>has_chunks = [''c0'' \<mapsto> replicate 2777 0], max_conn = 4, timeout = 0\<rparr>)
        = Inr ([([3, 12, 5, 120, 0, 0, 0, 1, 0, 0, 0, 0] @ replicate 1388 0,
                 (''10.0.0.2'', 9000)),
                ([3, 12, 5, 120, 0, 0, 0, 2, 0, 0, 0, 0] @ replicate 1388 0,
                 (''10.0.0.2'', 9000))], rt)
      \<and> upload_connections rt = [(((''10.0.0.2'', 9000), ''c0''), c)]
      \<and> state c = TRANSFER \<and> ack_num c = 1 \<and> get_send_window c = 2
      \<and> seq_num c = 2 \<and> min 3 (ack_num c + get_send_window c) = 3)"
  by (simp add: upload_eval split_chunk_2777 build_data_full)

text \<open>
  C4 (the code at a failing input). On the same upload, after the ACK for packet 1:
  one duplicate ACK leaves \<open>duplicate_ack_count = 2\<close> (it is counted in \<open>handle_ack\<close>
  and again in \<open>handle_ack_packet\<close>); the second duplicate ACK already triggers the
  fast retransmit of packet 2 with the loss update and resets the counter; after the
  third one the counter is 2, not 0.
\<close>

theorem fast_retransmit_after_two_duplicates:
  "(\<exists>rt c.
        upload_run [(0, StartUpload (''10.0.0.2'', 9000) ''c0''),
                    (1, AckFrom (''10.0.0.2'', 9000) 1),
                    (2, AckFrom (''10.0.0.2'', 9000) 1)]
          (ReliableTransfer_init
             \<lparr>has_chunks = [''c0'' \<mapsto> replicate 2777 0], max_conn = 4, timeout = 0\<rparr>)
        = Inr ([([3, 12, 5, 120, 0, 0, 0, 1, 0, 0, 0, 0] @ replicate 1388 0,
                 (''10.0.0.2'', 9000)),
                ([3, 12, 5, 120, 0, 0, 0, 2, 0, 0, 0, 0] @ replicate 1388 0,
                 (''10.0.0.2'', 9000))], rt)
      \<and> upload_connections rt = [(((''10.0.0.2'', 9000), ''c0''), c)]
      \<and> duplicate_ack_count c = 2 \<and> retransmission_count c = 0)
   \<and> (\<exists>rt c.
        upload_run [(0, StartUpload (''10.0.0.2'', 9000) ''c0''),
                    (1, AckFrom (''10.0.0.2'', 9000) 1),
                    (2, AckFrom (''10.0.0.2'', 9000) 1),
                    (3, AckFrom (''10.0.0.2'', 9000) 1)]
          (ReliableTransfer_init
             \<lparr>has_chunks = [''c0'' \<mapsto> replicate 2777 0], max_conn = 4, timeout = 0\<rparr>)
        = Inr ([([3, 12, 5, 120, 0, 0, 0, 1, 0, 0, 0, 0] @ replicate 1388 0,
                 (''10.0.0.2'', 9000)),
                ([3, 12, 5, 120, 0, 0, 0, 2, 0, 0, 0, 0] @ replicate 1388 0,
                 (''10.0.0.2'', 9000)),
                ([3, 12, 5, 120, 0, 0, 0, 2, 0, 0, 0, 0] @ replicate 1388 0,
                 (''10.0.0.2'', 9000))], rt)
      \<and> upload_connections rt = [(((''10.0.0.2'', 9000), ''c0''), c)]
      \<and> retransmission_count c = 1 \<and> cwnd c = 1 \<and> ssthresh c = 2
      \<and> duplicate_ack_count c = 0)
   \<and> (\<exists>out rt c.
        upload_run [(0, StartUpload (''10.0.0.2'', 9000) ''c0''),
                    (1, AckFrom (''10.0.0.2'', 9000) 1),
                    (2, AckFrom (''10.0.0.2'', 9000) 1),
                    (3, AckFrom (''10.0.0.2'', 9000) 1),
                    (4, AckFrom (''10.0.0.2'', 9000) 1)]
          (ReliableTransfer_init
             \<lparr>has_chunks = [''c0'' \<mapsto> replicate 2777 0], max_conn = 4, timeout = 0\<rparr>)
        = Inr (out, rt)
      \<and> upload_connections rt = [(((''10.0.0.2'', 9000), ''c0''), c)]
      \<and> length out = 3 \<and> retransmission_count c = 1 \<and> duplicate_ack_count c = 2)"
  by (simp add: upload_eval split_chunk_2777 build_data_full)


end
